theory Spec2Isabelle
  imports Main "HOL-Library.Sublist"
begin

section \<open>Library model: regular expressions\<close>

text \<open>
  Go strings are byte sequences; they are modelled as \<^typ>\<open>string\<close> (a list of
  8-bit characters).

  The program compiles two patterns with \<^verbatim>\<open>regexp.MustCompile\<close>. The type
  \<open>regex\<close> is the syntax tree of the part of the RE2 syntax these patterns use; the
  constructors carry the names of the operators of Go's \<^verbatim>\<open>regexp/syntax\<close>.
  A character class is given by the list of its members.

  Go's matcher reads a string as UTF-8 and \<^verbatim>\<open>.\<close> takes one character, of one to four
  bytes (an invalid byte counts as a character). Here \<open>OpAnyCharNotNL\<close> takes one byte.
  For the two patterns of this program the capture groups are the same either way: what
  stands beside a \<^verbatim>\<open>.\<close> that a group contains is an ASCII character, and an ASCII byte
  is never part of a longer character. Only the text of the whole match of
  \<^verbatim>\<open>goVersionPattern\<close>, which the program does not read, can differ on input outside
  ASCII.
\<close>

datatype regex =
    OpEmptyMatch
  | OpLiteral char
  | OpCharClass "char list"
  | OpAnyCharNotNL
  | OpEndText
  | OpCapture nat regex
  | OpStar regex
  | OpConcat regex regex

text \<open>\<^verbatim>\<open>x+\<close> and \<^verbatim>\<open>x{1,}\<close> are \<^verbatim>\<open>xx*\<close>; \<^verbatim>\<open>x{n}\<close> is \<open>n\<close> copies of \<^verbatim>\<open>x\<close>.\<close>

definition OpPlus :: "regex \<Rightarrow> regex" where
  "OpPlus r = OpConcat r (OpStar r)"

fun OpRepeat :: "nat \<Rightarrow> regex \<Rightarrow> regex" where
  "OpRepeat 0 r = OpEmptyMatch"
| "OpRepeat (Suc n) r = OpConcat r (OpRepeat n r)"

fun concats :: "regex list \<Rightarrow> regex" where
  "concats [] = OpEmptyMatch"
| "concats [r] = r"
| "concats (r # rs) = OpConcat r (concats rs)"

definition newline :: char where
  "newline = CHR 0x0A"

text \<open>
  Go's matcher returns the leftmost match and, among the matches that start there, the
  one a backtracking matcher finds first (package documentation of \<^verbatim>\<open>regexp\<close>).
  \<open>backtrack r s caps\<close> is that backtracking search: it lists, in the order of
  preference, every way \<open>r\<close> can match a prefix of \<open>s\<close>, each as the rest of the
  input with the capture groups set so far. A starred expression prefers one more
  iteration to stopping (greedy), and an iteration has to consume input.
\<close>

type_synonym captures = "nat \<rightharpoonup> string"

fun backtrack :: "regex \<Rightarrow> string \<Rightarrow> captures \<Rightarrow> (string \<times> captures) list" where
  "backtrack OpEmptyMatch s caps = [(s, caps)]"
| "backtrack (OpLiteral a) s caps =
     (case s of [] \<Rightarrow> [] | x # xs \<Rightarrow> if x = a then [(xs, caps)] else [])"
| "backtrack (OpCharClass cls) s caps =
     (case s of [] \<Rightarrow> [] | x # xs \<Rightarrow> if x \<in> set cls then [(xs, caps)] else [])"
| "backtrack OpAnyCharNotNL s caps =
     (case s of [] \<Rightarrow> [] | x # xs \<Rightarrow> if x \<noteq> newline then [(xs, caps)] else [])"
| "backtrack OpEndText s caps = (if s = [] then [(s, caps)] else [])"
| "backtrack (OpCapture n r) s caps =
     map (\<lambda>(s', caps'). (s', caps'(n \<mapsto> take (length s - length s') s)))
       (backtrack r s caps)"
| "backtrack (OpStar r) s caps =
     concat (map (\<lambda>(s', caps').
                if length s' < length s then backtrack (OpStar r) s' caps' else [])
              (backtrack r s caps))
     @ [(s, caps)]"
| "backtrack (OpConcat r1 r2) s caps =
     concat (map (\<lambda>(s', caps'). backtrack r2 s' caps') (backtrack r1 s caps))"

text \<open>The match that starts at the beginning of \<open>s\<close>: the matched text and the groups.\<close>

definition matchHere :: "regex \<Rightarrow> string \<Rightarrow> (string \<times> captures) option" where
  "matchHere r s =
     (case backtrack r s Map.empty of
        [] \<Rightarrow> None
      | (s', caps) # _ \<Rightarrow> Some (take (length s - length s') s, caps))"

text \<open>The leftmost match: the start moves right until a match is found.\<close>

fun leftmost :: "regex \<Rightarrow> string \<Rightarrow> (string \<times> captures) option" where
  "leftmost r [] = matchHere r []"
| "leftmost r (x # xs) =
     (case matchHere r (x # xs) of Some m \<Rightarrow> Some m | None \<Rightarrow> leftmost r xs)"

fun numSubexp :: "regex \<Rightarrow> nat" where
  "numSubexp (OpCapture n r) = max n (numSubexp r)"
| "numSubexp (OpStar r) = numSubexp r"
| "numSubexp (OpConcat r1 r2) = max (numSubexp r1) (numSubexp r2)"
| "numSubexp _ = 0"

text \<open>
  \<^verbatim>\<open>FindStringSubmatch\<close>: the text of the leftmost match and of each capture group, the
  empty list (Go's \<^verbatim>\<open>nil\<close>) when there is no match. A group that took no part in the
  match gives the empty string.
\<close>

definition FindStringSubmatch :: "regex \<Rightarrow> string \<Rightarrow> string list" where
  "FindStringSubmatch re s =
     (case leftmost re s of
        None \<Rightarrow> []
      | Some (m, caps) \<Rightarrow>
          m # map (\<lambda>i. case caps i of None \<Rightarrow> [] | Some g \<Rightarrow> g) [1..<Suc (numSubexp re)])"


text \<open>
  \<^verbatim>\<open>ExpandString\<close> appends the template to \<open>dst\<close>, with each variable
  \<^verbatim>\<open>$name\<close> or \<^verbatim>\<open>${name}\<close> replaced: a name is the longest run of letters, digits
  and underscores; a purely numeric name (without a leading zero, below \<open>10\<^sup>8\<close>) is the
  group of that index, and any other name is a named group, of which the patterns of
  this program have none; \<^verbatim>\<open>$$\<close> is a dollar sign, and a dollar sign followed by no
  name stays as it is. Go passes the source string and the index pairs of the match;
  here the match is the list of the texts those pairs delimit, so the template is
  expanded from that list. Names are ASCII here.
\<close>

definition isWordChar :: "char \<Rightarrow> bool" where
  "isWordChar c \<longleftrightarrow>
     c \<in> set ''0123456789abcdefghijklmnopqrstuvwxyzABCDEFGHIJKLMNOPQRSTUVWXYZ_''"

definition isDigit :: "char \<Rightarrow> bool" where
  "isDigit c \<longleftrightarrow> c \<in> set ''0123456789''"

definition digitVal :: "char \<Rightarrow> int" where
  "digitVal c = of_char c - 48"

fun groupNumber :: "string \<Rightarrow> int \<Rightarrow> int" where
  "groupNumber [] num = num"
| "groupNumber (c # cs) num =
     (if \<not> isDigit c \<or> num \<ge> 100000000 then - 1
      else groupNumber cs (num * 10 + digitVal c))"

definition extractName :: "string \<Rightarrow> (string \<times> int \<times> string) option" where
  "extractName str =
     (if str = [] then None
      else
        let brace = (hd str = CHR ''{'');
            str' = (if brace then tl str else str);
            name = takeWhile isWordChar str';
            after = dropWhile isWordChar str'
        in if name = [] then None
           else if brace \<and> (after = [] \<or> hd after \<noteq> CHR ''}'') then None
           else
             let num = (if hd name = CHR ''0'' \<and> length name > 1 then - 1
                        else groupNumber name 0)
             in Some (name, num, if brace then tl after else after))"

function expand :: "string \<Rightarrow> string list \<Rightarrow> string" where
  "expand [] match = []"
| "expand (c # template) match =
     (if c \<noteq> CHR ''$'' then c # expand template match
      else if template \<noteq> [] \<and> hd template = CHR ''$'' then CHR ''$'' # expand (tl template) match
      else
        (case extractName template of
           None \<Rightarrow> CHR ''$'' # expand template match
         | Some (name, num, rest) \<Rightarrow>
             (if 0 \<le> num \<and> nat num < length match then match ! nat num else [])
             @ expand rest match))"
  by pat_completeness auto
termination
proof (relation "measure (\<lambda>(template, match). length template)")
  fix c :: char and template name rest :: string and match :: "string list"
    and x :: "string \<times> int \<times> string" and num :: int and y :: "int \<times> string"
  assume ex: "extractName template = Some x" and x: "(name, y) = x" and y: "(num, rest) = y"
  have dw: "length (dropWhile isWordChar u) \<le> length u" for u
    by (rule length_dropWhile_le)
  from ex x y have "extractName template = Some (name, num, rest)"
    by simp
  then have "rest = dropWhile isWordChar template
             \<or> rest = dropWhile isWordChar (tl template)
             \<or> rest = tl (dropWhile isWordChar template)
             \<or> rest = tl (dropWhile isWordChar (tl template))"
    by (auto simp: extractName_def Let_def split: if_splits)
  moreover have "length (dropWhile isWordChar (tl template)) \<le> length template"
    using dw [of "tl template"] by simp
  ultimately have "length rest \<le> length template"
    using dw [of template] by auto
  then show "((rest, match), c # template, match)
             \<in> measure (\<lambda>(template, match). length template)"
    by simp
qed auto

definition ExpandString :: "string \<Rightarrow> string \<Rightarrow> string list \<Rightarrow> string" where
  "ExpandString dst template match = dst @ expand template match"

section \<open>Library model: numbers, byte strings, paths\<close>

text \<open>
  Go's \<^verbatim>\<open>int\<close> is taken as the 64-bit signed integer of the usual platforms. A value
  of that type is an \<^typ>\<open>int\<close> within the range, and arithmetic wraps around.
\<close>

definition maxInt :: int where
  "maxInt = 2 ^ 63 - 1"

definition wrapInt :: "int \<Rightarrow> int" where
  "wrapInt x = (x + 2 ^ 63) mod 2 ^ 64 - 2 ^ 63"

text \<open>
  \<^verbatim>\<open>strconv.Atoi\<close>, that is \<^verbatim>\<open>ParseInt(s, 10, 0)\<close>: an optional sign and then decimal
  digits only; the digits are read as an unsigned 64-bit number, and the signed result
  has to fit \<^verbatim>\<open>int\<close>.
\<close>

datatype NumError = ErrSyntax | ErrRange

fun parseUint :: "string \<Rightarrow> int \<Rightarrow> NumError + int" where
  "parseUint [] n = Inr n"
| "parseUint (c # cs) n =
     (if \<not> isDigit c then Inl ErrSyntax
      else if n * 10 + digitVal c \<ge> 2 ^ 64 then Inl ErrRange
      else parseUint cs (n * 10 + digitVal c))"

definition Atoi :: "string \<Rightarrow> NumError + int" where
  "Atoi s =
     (if s = [] then Inl ErrSyntax
      else
        let neg = (hd s = CHR ''-'');
            s' = (if hd s = CHR ''+'' \<or> hd s = CHR ''-'' then tl s else s)
        in if s' = [] then Inl ErrSyntax
           else
             (case parseUint s' 0 of
                Inl e \<Rightarrow> Inl e
              | Inr un \<Rightarrow>
                  if \<not> neg \<and> un \<ge> 2 ^ 63 then Inl ErrRange
                  else if neg \<and> un > 2 ^ 63 then Inl ErrRange
                  else Inr (if neg then - un else un)))"

text \<open>\<^verbatim>\<open>bytes.Split\<close> with a separator of one byte: one piece more than separators.\<close>

fun Split :: "string \<Rightarrow> char \<Rightarrow> string list" where
  "Split [] sep = [[]]"
| "Split (x # xs) sep =
     (if x = sep then [] # Split xs sep
      else (case Split xs sep of [] \<Rightarrow> [[x]] | p # ps \<Rightarrow> (x # p) # ps))"

text \<open>\<^verbatim>\<open>strings.Join\<close>.\<close>

fun Join :: "string list \<Rightarrow> string \<Rightarrow> string" where
  "Join [] sep = []"
| "Join [a] sep = a"
| "Join (a # as) sep = a @ sep @ Join as sep"

text \<open>
  \<^verbatim>\<open>bytes.TrimSpace\<close> removes the leading and trailing white space, as Unicode defines
  it, of a UTF-8 byte string. \<open>spaceRunes\<close> lists the UTF-8 encodings of the white space
  characters: U+0009 to U+000D, U+0020, U+0085, U+00A0, U+1680, U+2000 to U+200A, U+2028,
  U+2029, U+202F, U+205F and U+3000.
\<close>

definition spaceRunes :: "string list" where
  "spaceRunes =
     [[CHR 0x09], [CHR 0x0A], [CHR 0x0B], [CHR 0x0C], [CHR 0x0D], [CHR 0x20],
      [CHR 0xC2, CHR 0x85], [CHR 0xC2, CHR 0xA0],
      [CHR 0xE1, CHR 0x9A, CHR 0x80],
      [CHR 0xE2, CHR 0x80, CHR 0x80], [CHR 0xE2, CHR 0x80, CHR 0x81],
      [CHR 0xE2, CHR 0x80, CHR 0x82], [CHR 0xE2, CHR 0x80, CHR 0x83],
      [CHR 0xE2, CHR 0x80, CHR 0x84], [CHR 0xE2, CHR 0x80, CHR 0x85],
      [CHR 0xE2, CHR 0x80, CHR 0x86], [CHR 0xE2, CHR 0x80, CHR 0x87],
      [CHR 0xE2, CHR 0x80, CHR 0x88], [CHR 0xE2, CHR 0x80, CHR 0x89],
      [CHR 0xE2, CHR 0x80, CHR 0x8A],
      [CHR 0xE2, CHR 0x80, CHR 0xA8], [CHR 0xE2, CHR 0x80, CHR 0xA9],
      [CHR 0xE2, CHR 0x80, CHR 0xAF],
      [CHR 0xE2, CHR 0x81, CHR 0x9F],
      [CHR 0xE3, CHR 0x80, CHR 0x80]]"

fun trimPrefixes :: "string list \<Rightarrow> string \<Rightarrow> string" where
  "trimPrefixes ps [] = []"
| "trimPrefixes ps (x # xs) =
     (case find (\<lambda>p. prefix p (x # xs)) ps of
        None \<Rightarrow> x # xs
      | Some p \<Rightarrow> trimPrefixes ps (drop (length p - 1) xs))"

definition TrimSpace :: "string \<Rightarrow> string" where
  "TrimSpace s =
     rev (trimPrefixes (map rev spaceRunes) (rev (trimPrefixes spaceRunes s)))"

text \<open>
  \<^verbatim>\<open>filepath.Join\<close> on a system whose separator is the slash: the non-empty elements
  joined by slashes, and the result cleaned lexically (\<^verbatim>\<open>filepath.Clean\<close>: no empty
  and no \<^verbatim>\<open>.\<close> elements, a \<^verbatim>\<open>..\<close> removes the element before it or, at the root,
  itself; the empty path is \<^verbatim>\<open>.\<close>).
\<close>

fun cleanElems :: "string list \<Rightarrow> bool \<Rightarrow> string list \<Rightarrow> string list" where
  "cleanElems [] rooted acc = rev acc"
| "cleanElems (e # es) rooted acc =
     (if e = [] \<or> e = ''.'' then cleanElems es rooted acc
      else if e = ''..'' then
        (case acc of
           [] \<Rightarrow> cleanElems es rooted (if rooted then [] else [e])
         | a # as \<Rightarrow> if a = ''..'' then cleanElems es rooted (e # acc)
                     else cleanElems es rooted as)
      else cleanElems es rooted (e # acc))"

definition Clean :: "string \<Rightarrow> string" where
  "Clean path =
     (let rooted = (path \<noteq> [] \<and> hd path = CHR ''/'');
          out = (if rooted then ''/'' else []) @ Join (cleanElems (Split path CHR ''/'') rooted []) ''/''
      in if out = [] then ''.'' else out)"

definition filepath_Join :: "string list \<Rightarrow> string" where
  "filepath_Join elems =
     (let es = filter (\<lambda>e. e \<noteq> []) elems
      in if es = [] then [] else Clean (Join es ''/''))"

section \<open>The world outside the program\<close>

text \<open>
  The program reads its flag \<^verbatim>\<open>-pkg\<close> and runs external commands.
  \<^verbatim>\<open>exec.Command(name, args...).CombinedOutput()\<close> is a function of the world: for a
  command line it gives the bytes the command wrote and, when the command failed, the
  text of the error. Each command line is run once in a run of the program.
\<close>

type_synonym os = "string \<Rightarrow> string list \<Rightarrow> string \<times> string option"

text \<open>
  The ways a run of the program ends: \<^verbatim>\<open>log.Fatalf\<close> and \<^verbatim>\<open>log.Fatalln\<close> write one
  line and exit with status 1; a panic of \<^verbatim>\<open>mustAtoi\<close> that nothing recovers ends the
  process; else the program writes the line of link flags with \<^verbatim>\<open>log.Printf\<close> and
  returns. The line is kept without its final newline.
\<close>

datatype outcome = Fatal string | Panicked NumError | Printed string

section \<open>The program: \<^verbatim>\<open>cmd/linkflags/main.go\<close>\<close>

subsection \<open>Patterns\<close>

text \<open>\<^verbatim>\<open>(.+)-([0-9]{1,})-g([0-9a-f]{14})$\<close>\<close>

definition semverPattern :: regex where
  "semverPattern = concats
     [OpCapture 1 (OpPlus OpAnyCharNotNL),
      OpLiteral CHR ''-'',
      OpCapture 2 (OpPlus (OpCharClass ''0123456789'')),
      OpLiteral CHR ''-'',
      OpLiteral CHR ''g'',
      OpCapture 3 (OpRepeat 14 (OpCharClass ''0123456789abcdef'')),
      OpEndText]"

text \<open>\<^verbatim>\<open>go([1-9])\.(\d+)(?:.\d+)*\<close>; the class \<^verbatim>\<open>\d\<close> is \<^verbatim>\<open>[0-9]\<close>.\<close>

definition goVersionPattern :: regex where
  "goVersionPattern = concats
     [OpLiteral CHR ''g'',
      OpLiteral CHR ''o'',
      OpCapture 1 (OpCharClass ''123456789''),
      OpLiteral CHR ''.'',
      OpCapture 2 (OpPlus (OpCharClass ''0123456789'')),
      OpStar (OpConcat OpAnyCharNotNL (OpPlus (OpCharClass ''0123456789'')))]"

subsection \<open>\<^verbatim>\<open>semverify\<close>\<close>

text \<open>
  The Go code takes the index pairs of the match (\<^verbatim>\<open>FindStringSubmatchIndex\<close>, \<^verbatim>\<open>nil\<close>
  without a match) and hands them with the string to \<^verbatim>\<open>ExpandString\<close>; here the match
  is the list of the texts between those indexes.
\<close>

definition semverify :: "string \<Rightarrow> string" where
  "semverify version =
     (let result = [];
          match = FindStringSubmatch semverPattern version
      in if match \<noteq> [] then ExpandString result ''$1.$2+$3'' match
         else version)"

subsection \<open>Tool errors\<close>

record toolError =
  tool :: string
  output' :: string
  err :: string

definition Error :: "toolError \<Rightarrow> string" where
  "Error r = ''error executing `'' @ tool r @ ''`: '' @ err r @ '' ('' @ output' r @ '')''"

subsection \<open>The version of the go tool\<close>

type_synonym toolVersion = int

definition toolVersionUnknown :: toolVersion where
  "toolVersionUnknown = 0"

text \<open>\<^verbatim>\<open>mustAtoi\<close> panics with the error of \<^verbatim>\<open>strconv.Atoi\<close>: \<open>Inl\<close> is the panic.\<close>

definition mustAtoi :: "string \<Rightarrow> NumError + int" where
  "mustAtoi v = (case Atoi v of Inl e \<Rightarrow> Inl e | Inr result \<Rightarrow> Inr result)"

definition parseToolVersion :: "string \<Rightarrow> NumError + toolVersion" where
  "parseToolVersion version =
     (let match = FindStringSubmatch goVersionPattern version
      in if length match > 2 then
           (case mustAtoi (match ! 1) of
              Inl p \<Rightarrow> Inl p
            | Inr major \<Rightarrow>
                (case mustAtoi (match ! 2) of
                   Inl p \<Rightarrow> Inl p
                 | Inr minor \<Rightarrow> Inr (wrapInt (wrapInt (major * 10) + minor))))
         else Inr toolVersionUnknown)"

text \<open>
  \<^verbatim>\<open>goToolVersion\<close> returns a pair of a version and an error (\<open>None\<close> is Go's
  \<^verbatim>\<open>nil\<close>), unless \<^verbatim>\<open>parseToolVersion\<close> panics.
\<close>

definition goToolVersion :: "os \<Rightarrow> NumError + (toolVersion \<times> toolError option)" where
  "goToolVersion os =
     (case os ''go'' [''version''] of
        (out, Some e) \<Rightarrow>
          Inr (toolVersionUnknown, Some \<lparr>tool = ''go'', output' = out, err = e\<rparr>)
      | (out, None) \<Rightarrow>
          (let build = Split out CHR '' ''
           in if length build > 2 then
                (case parseToolVersion (build ! 2) of
                   Inl p \<Rightarrow> Inl p
                 | Inr v \<Rightarrow> Inr (v, None))
              else Inr (toolVersionUnknown, None)))"

subsection \<open>Git\<close>

record git =
  cmd :: string
  args :: "string list"

definition newGit :: "string \<Rightarrow> git" where
  "newGit pkg =
     \<lparr>cmd = ''git'',
      args = [''--work-tree'', pkg, ''--git-dir'', filepath_Join [pkg, ''.git'']]\<rparr>"

type_synonym treeState = string

definition clean :: treeState where
  "clean = ''clean''"

definition dirty :: treeState where
  "dirty = ''dirty''"

text \<open>
  \<^verbatim>\<open>exec\<close> runs git with the arguments of the receiver followed by the given ones; the
  output is trimmed when the command succeeded.
\<close>

definition exec :: "os \<Rightarrow> git \<Rightarrow> string list \<Rightarrow> string \<times> toolError option" where
  "exec os r as =
     (let opts = [] @ args r;
          opts = opts @ as
      in case os (cmd r) opts of
           (out, None) \<Rightarrow> (TrimSpace out, None)
         | (out, Some e) \<Rightarrow> (out, Some \<lparr>tool = cmd r, output' = out, err = e\<rparr>))"

definition commitID :: "os \<Rightarrow> git \<Rightarrow> string \<times> toolError option" where
  "commitID os r = exec os r [''rev-parse'', ''HEAD^{commit}'']"

definition treeState :: "os \<Rightarrow> git \<Rightarrow> treeState \<times> toolError option" where
  "treeState os r =
     (case exec os r [''status'', ''--porcelain''] of
        (out, Some e) \<Rightarrow> ([], Some e)
      | (out, None) \<Rightarrow> if length out = 0 then (clean, None) else (dirty, None))"

definition version :: "os \<Rightarrow> git \<Rightarrow> string \<Rightarrow> string \<times> toolError option" where
  "version os r commitID' =
     exec os r [''describe'', ''--tags'', ''--abbrev=14'', commitID' @ ''^{commit}'']"

subsection \<open>\<^verbatim>\<open>main\<close>\<close>

definition versionPackage :: string where
  "versionPackage = ''github.com/gravitational/version''"

text \<open>
  Lines 52 to 57: a non-empty version is made semver-compliant and marked when the tree
  is dirty.
\<close>

definition finalVersion :: "string \<Rightarrow> treeState \<Rightarrow> string" where
  "finalVersion version' treeState' =
     (if version' \<noteq> [] then
        (let version' = semverify version'
         in if treeState' = dirty then version' @ ''-dirty'' else version')
      else version')"

text \<open>The closure \<^verbatim>\<open>linkFlag\<close> of lines 60 to 66, with the \<^verbatim>\<open>goVersion\<close> it captures.\<close>

definition linkFlag :: "toolVersion \<Rightarrow> string \<Rightarrow> string \<Rightarrow> string" where
  "linkFlag goVersion key val =
     (if goVersion \<le> 14 then ''-X '' @ versionPackage @ ''.'' @ key @ '' '' @ val
      else ''-X '' @ versionPackage @ ''.'' @ key @ ''='' @ val)"

text \<open>Lines 59 to 75: the list \<^verbatim>\<open>linkFlags\<close>, built by appending.\<close>

definition linkFlags :: "toolVersion \<Rightarrow> string \<Rightarrow> treeState \<Rightarrow> string \<Rightarrow> string list" where
  "linkFlags goVersion commitID' treeState' version' =
     (let flags = [];
          flags = (if commitID' \<noteq> [] then
                     (flags @ [linkFlag goVersion ''gitCommit'' commitID'])
                       @ [linkFlag goVersion ''gitTreeState'' treeState']
                   else flags);
          flags = (if version' \<noteq> [] then flags @ [linkFlag goVersion ''version'' version']
                   else flags)
      in flags)"

definition main :: "os \<Rightarrow> string \<Rightarrow> outcome" where
  "main os pkg =
     (if pkg = [] then Fatal ''pkg required''
      else
        (case goToolVersion os of
           Inl p \<Rightarrow> Panicked p
         | Inr (goVersion, Some e) \<Rightarrow>
             Fatal (''failed to determine go tool version: '' @ Error e)
         | Inr (goVersion, None) \<Rightarrow>
             (let git = newGit pkg
              in case commitID os git of
                   (commitID', Some e) \<Rightarrow>
                     Fatal (''failed to obtain git commit ID: '' @ Error e)
                 | (commitID', None) \<Rightarrow>
                     (case treeState os git of
                        (treeState', Some e) \<Rightarrow>
                          Fatal (''failed to determine git tree state: '' @ Error e)
                      | (treeState', None) \<Rightarrow>
                          (let (version', err) = version os git commitID';
                               version' = (if err \<noteq> None then [] else version');
                               version' = finalVersion version' treeState'
                           in Printed
                                (Join (linkFlags goVersion commitID' treeState' version')
                                   '' ''))))))"

section \<open>Notions used in the statements and proofs\<close>

text \<open>
  The tail of a describe string that \<^verbatim>\<open>semverPattern\<close> looks for is
  \<^verbatim>\<open>-<N>-g<H>\<close>: \<open>countAndHash N H\<close> says that \<open>N\<close> is one or more decimal digits and
  \<open>H\<close> is fourteen characters of \<^verbatim>\<open>[0-9a-f]\<close>.
\<close>

definition isHex :: "char \<Rightarrow> bool" where
  "isHex c \<longleftrightarrow> c \<in> set ''0123456789abcdef''"

definition countAndHash :: "string \<Rightarrow> string \<Rightarrow> bool" where
  "countAndHash N H \<longleftrightarrow> N \<noteq> [] \<and> list_all isDigit N \<and> length H = 14 \<and> list_all isHex H"

text \<open>
  What a greedy run over the characters that satisfy \<open>P\<close> can leave of the input: the
  shortest rest first.
\<close>

fun greedy :: "(char \<Rightarrow> bool) \<Rightarrow> string \<Rightarrow> string list" where
  "greedy P [] = [[]]"
| "greedy P (x # xs) = (if P x then greedy P xs @ [x # xs] else [x # xs])"


text \<open>The parts of \<^verbatim>\<open>semverPattern\<close> from the right.\<close>

definition hashPart :: regex where
  "hashPart = OpConcat (OpCapture 3 (OpRepeat 14 (OpCharClass ''0123456789abcdef''))) OpEndText"

definition gPart :: regex where
  "gPart = OpConcat (OpLiteral CHR ''-'') (OpConcat (OpLiteral CHR ''g'') hashPart)"

definition countPart :: regex where
  "countPart = OpConcat (OpCapture 2 (OpPlus (OpCharClass ''0123456789''))) gPart"


text \<open>
  The number a string of decimal digits denotes.
\<close>

definition decimal :: "string \<Rightarrow> int" where
  "decimal ds = foldl (\<lambda>n c. n * 10 + digitVal c) 0 ds"

text \<open>
  What \<^verbatim>\<open>goVersionPattern\<close> recognises at the start of a string: \<^verbatim>\<open>go\<close>, one digit
  \<open>d\<close> from 1 to 9, a dot and at least one digit; \<open>tokenAt\<close> gives \<open>d\<close> and the whole
  run of digits after the dot. \<open>firstToken\<close> is the leftmost place of a string where
  that holds.
\<close>

fun tokenAt :: "string \<Rightarrow> (char \<times> string) option" where
  "tokenAt (g # o' # d # dot # rest) =
     (if g = CHR ''g'' \<and> o' = CHR ''o'' \<and> d \<in> set ''123456789'' \<and> dot = CHR ''.''
         \<and> takeWhile isDigit rest \<noteq> []
      then Some (d, takeWhile isDigit rest) else None)"
| "tokenAt _ = None"

fun firstToken :: "string \<Rightarrow> (char \<times> string) option" where
  "firstToken [] = None"
| "firstToken (x # xs) =
     (case tokenAt (x # xs) of Some t \<Rightarrow> Some t | None \<Rightarrow> firstToken xs)"

text \<open>Expressions without capture groups, and the parts of \<^verbatim>\<open>goVersionPattern\<close>.\<close>

fun captureFree :: "regex \<Rightarrow> bool" where
  "captureFree (OpCapture n r) = False"
| "captureFree (OpStar r) = captureFree r"
| "captureFree (OpConcat r1 r2) = (captureFree r1 \<and> captureFree r2)"
| "captureFree _ = True"

definition patchPart :: regex where
  "patchPart = OpStar (OpConcat OpAnyCharNotNL (OpPlus (OpCharClass ''0123456789'')))"

definition minorPart :: regex where
  "minorPart = OpConcat (OpCapture 2 (OpPlus (OpCharClass ''0123456789''))) patchPart"



section \<open>Example worlds\<close>

text \<open>
  Worlds for the concrete runs below: a go tool of version 1.21.3 over a dirty tree three
  commits after a tag; a development build of the go tool, whose version is not
  parsed; a repository without tags, in which \<^verbatim>\<open>git describe\<close> fails; and a machine
  without the go tool.
\<close>

definition exampleOS :: os where
  "exampleOS name as =
     (if name = ''go'' then (''go version go1.21.3 linux/amd64'' @ [newline], None)
      else if ''rev-parse'' \<in> set as then (''0123abc'' @ [newline], None)
      else if ''status'' \<in> set as then ('' M main.go'' @ [newline], None)
      else (''v1.2.0-3-g0123abc0000000'' @ [newline], None))"

definition develOS :: os where
  "develOS name as =
     (if name = ''go'' then (''go version devel +0123abc linux/amd64'' @ [newline], None)
      else if ''rev-parse'' \<in> set as then (''0123abc'' @ [newline], None)
      else if ''status'' \<in> set as then ([], None)
      else (''v1.2.0'' @ [newline], None))"

definition noTagsOS :: os where
  "noTagsOS name as =
     (if name = ''go'' then (''go version go1.4.3 linux/amd64'' @ [newline], None)
      else if ''rev-parse'' \<in> set as then (''0123abc'' @ [newline], None)
      else if ''status'' \<in> set as then ([], None)
      else (''fatal: No names found, cannot describe anything.'' @ [newline],
            Some ''exit status 128''))"

definition goMissingOS :: os where
  "goMissingOS name as = ([], Some ''executable file not found'')"


section \<open>Properties of the matcher\<close>

text \<open>
  The equation of a starred expression unfolds into itself, so it is applied by hand.
\<close>

declare backtrack.simps(7) [simp del]

lemma greedy_nonempty: "greedy P s \<noteq> []"
  by (cases s) auto

lemma greedy_hd: "hd (greedy P s) = dropWhile P s"
  by (induction s) (auto simp: greedy_nonempty)

lemma greedy_set: "set (greedy P s) = {t. \<exists>p. s = p @ t \<and> list_all P p}"
proof (induction s)
  case Nil
  show ?case by auto
next
  case (Cons x xs)
  show ?case
  proof (cases "P x")
    case True
    have "{t. \<exists>p. x # xs = p @ t \<and> list_all P p}
          = insert (x # xs) {t. \<exists>p. xs = p @ t \<and> list_all P p}"
    proof (intro set_eqI iffI)
      fix t assume "t \<in> {t. \<exists>p. x # xs = p @ t \<and> list_all P p}"
      then obtain p where p: "x # xs = p @ t" "list_all P p" by blast
      show "t \<in> insert (x # xs) {t. \<exists>p. xs = p @ t \<and> list_all P p}"
      proof (cases p)
        case Nil with p show ?thesis by simp
      next
        case (Cons a q)
        with p have "xs = q @ t" "list_all P q" by auto
        then show ?thesis by blast
      qed
    next
      fix t assume "t \<in> insert (x # xs) {t. \<exists>p. xs = p @ t \<and> list_all P p}"
      then consider "t = x # xs" | p where "xs = p @ t" "list_all P p" by blast
      then show "t \<in> {t. \<exists>p. x # xs = p @ t \<and> list_all P p}"
      proof cases
        case 1
        then have "x # xs = [] @ t \<and> list_all P []" by simp
        then show ?thesis by blast
      next
        case 2
        with True have "x # xs = (x # p) @ t \<and> list_all P (x # p)" by simp
        then show ?thesis by blast
      qed
    qed
    with True Cons show ?thesis by auto
  next
    case False
    have "{t. \<exists>p. x # xs = p @ t \<and> list_all P p} = {x # xs}"
    proof (intro set_eqI iffI)
      fix t assume "t \<in> {t. \<exists>p. x # xs = p @ t \<and> list_all P p}"
      then obtain p where p: "x # xs = p @ t" "list_all P p" by blast
      with False have "p = []" by (cases p) auto
      with p show "t \<in> {x # xs}" by simp
    next
      fix t assume "t \<in> {x # xs}"
      then have "x # xs = [] @ t \<and> list_all P []" by simp
      then show "t \<in> {t. \<exists>p. x # xs = p @ t \<and> list_all P p}" by blast
    qed
    with False show ?thesis by simp
  qed
qed

lemma star_one:
  assumes one: "\<And>s c. backtrack r s c = (case s of [] \<Rightarrow> [] | x # xs \<Rightarrow> if P x then [(xs, c)] else [])"
  shows "backtrack (OpStar r) s c = map (\<lambda>t. (t, c)) (greedy P s)"
proof (induction s)
  case Nil
  show ?case by (subst backtrack.simps(7)) (simp add: one)
next
  case (Cons x xs)
  show ?case by (subst backtrack.simps(7)) (simp add: one Cons)
qed

lemma plus_one:
  assumes one: "\<And>s c. backtrack r s c = (case s of [] \<Rightarrow> [] | x # xs \<Rightarrow> if P x then [(xs, c)] else [])"
  shows "backtrack (OpPlus r) s c =
          (case s of [] \<Rightarrow> [] | x # xs \<Rightarrow> if P x then map (\<lambda>t. (t, c)) (greedy P xs) else [])"
  by (cases s) (simp_all add: OpPlus_def one star_one [of r P, OF one])

lemma repeat_one:
  assumes one: "\<And>s c. backtrack r s c = (case s of [] \<Rightarrow> [] | x # xs \<Rightarrow> if P x then [(xs, c)] else [])"
  shows "backtrack (OpRepeat n r) s c =
          (if n \<le> length s \<and> list_all P (take n s) then [(drop n s, c)] else [])"
proof (induction n arbitrary: s)
  case 0
  show ?case by simp
next
  case (Suc n)
  show ?case by (cases s) (simp_all add: one Suc)
qed

lemma backtrack_class:
  "backtrack (OpCharClass cls) s c =
     (case s of [] \<Rightarrow> [] | x # xs \<Rightarrow> if (\<lambda>x. x \<in> set cls) x then [(xs, c)] else [])"
  by simp

lemma backtrack_any:
  "backtrack OpAnyCharNotNL s c =
     (case s of [] \<Rightarrow> [] | x # xs \<Rightarrow> if (\<lambda>x. x \<noteq> newline) x then [(xs, c)] else [])"
  by simp

lemmas plus_class = plus_one [of "OpCharClass cls" "\<lambda>x. x \<in> set cls" for cls, OF backtrack_class]
lemmas star_class = star_one [of "OpCharClass cls" "\<lambda>x. x \<in> set cls" for cls, OF backtrack_class]
lemmas repeat_class = repeat_one [of "OpCharClass cls" "\<lambda>x. x \<in> set cls" for cls, OF backtrack_class]
lemmas plus_any = plus_one [of OpAnyCharNotNL "\<lambda>x. x \<noteq> newline", OF backtrack_any]

lemma semverPattern_parts:
  "semverPattern = OpConcat (OpCapture 1 (OpPlus OpAnyCharNotNL)) (OpConcat (OpLiteral CHR ''-'') countPart)"
  by (simp add: semverPattern_def countPart_def gPart_def hashPart_def)

lemma list_all_hex: "list_all (\<lambda>x. x \<in> set ''0123456789abcdef'') u = list_all isHex u"
  by (simp add: isHex_def [abs_def])

lemma list_all_digit: "list_all (\<lambda>x. x \<in> set ''0123456789'') u = list_all isDigit u"
  by (simp add: isDigit_def [abs_def])

lemma backtrack_hashPart:
  "backtrack hashPart u c = (if length u = 14 \<and> list_all isHex u then [([], c(3 \<mapsto> u))] else [])"
proof -
  have "backtrack (OpCapture 3 (OpRepeat 14 (OpCharClass ''0123456789abcdef''))) u c =
          (if 14 \<le> length u \<and> list_all isHex (take 14 u)
           then [(drop 14 u, c(3 \<mapsto> take 14 u))] else [])"
    by (simp add: repeat_class list_all_hex del: set_simps)
  then show ?thesis
    by (auto simp: hashPart_def simp del: backtrack.simps(6))
qed

lemma backtrack_gPart:
  "backtrack gPart u c =
     (if \<exists>H. u = ''-g'' @ H \<and> length H = 14 \<and> list_all isHex H then [([], c(3 \<mapsto> drop 2 u))] else [])"
proof (cases u)
  case Nil
  then show ?thesis by (simp add: gPart_def)
next
  case (Cons a v)
  show ?thesis
  proof (cases v)
    case Nil
    with Cons show ?thesis by (simp add: gPart_def)
  next
    case (Cons b w)
    with \<open>u = a # v\<close> show ?thesis
      by (auto simp: gPart_def backtrack_hashPart)
  qed
qed

lemma capture_plus_one_mem:
  assumes one: "\<And>s c. backtrack r s c = (case s of [] \<Rightarrow> [] | x # xs \<Rightarrow> if P x then [(xs, c)] else [])"
  shows "(t, c') \<in> set (backtrack (OpCapture n (OpPlus r)) u c) \<longleftrightarrow>
           (\<exists>x p. u = x # p @ t \<and> P x \<and> list_all P p \<and> c' = c(n \<mapsto> x # p))"
proof (cases u)
  case Nil
  then show ?thesis by (simp add: plus_one [of r P, OF one])
next
  case (Cons x xs)
  have bt: "backtrack (OpCapture n (OpPlus r)) u c =
          (if P x then map (\<lambda>t. (t, c(n \<mapsto> take (length u - length t) u))) (greedy P xs) else [])"
    by (simp add: Cons plus_one [of r P, OF one] comp_def)
  show ?thesis
  proof
    assume "(t, c') \<in> set (backtrack (OpCapture n (OpPlus r)) u c)"
    then have px: "P x" and t: "t \<in> set (greedy P xs)"
      and c': "c' = c(n \<mapsto> take (length u - length t) u)"
      unfolding bt by (auto split: if_splits)
    from t obtain p where p: "xs = p @ t" "list_all P p"
      unfolding greedy_set by blast
    have "take (length u - length t) u = x # p"
      using Cons p by simp
    with c' px p Cons show "\<exists>x p. u = x # p @ t \<and> P x \<and> list_all P p \<and> c' = c(n \<mapsto> x # p)"
      by auto
  next
    assume "\<exists>x p. u = x # p @ t \<and> P x \<and> list_all P p \<and> c' = c(n \<mapsto> x # p)"
    then obtain p where p: "xs = p @ t" "P x" "list_all P p" "c' = c(n \<mapsto> x # p)"
      using Cons by auto
    then have "t \<in> set (greedy P xs)"
      unfolding greedy_set by blast
    moreover have "take (length u - length t) u = x # p"
      using Cons p by simp
    ultimately show "(t, c') \<in> set (backtrack (OpCapture n (OpPlus r)) u c)"
      unfolding bt using p by (auto simp: image_iff)
  qed
qed

lemmas capture_plus_class_mem =
  capture_plus_one_mem [of "OpCharClass cls" "\<lambda>x. x \<in> set cls" for cls, OF backtrack_class]
lemmas capture_plus_any_mem =
  capture_plus_one_mem [of OpAnyCharNotNL "\<lambda>x. x \<noteq> newline", OF backtrack_any]

lemma concat_mem:
  "(t, c') \<in> set (backtrack (OpConcat r1 r2) u c) \<longleftrightarrow>
     (\<exists>t1 c1. (t1, c1) \<in> set (backtrack r1 u c) \<and> (t, c') \<in> set (backtrack r2 t1 c1))"
  by auto

lemma literal_mem:
  "(t, c') \<in> set (backtrack (OpLiteral a) u c) \<longleftrightarrow> u = a # t \<and> c' = c"
  by (cases u) auto

lemma backtrack_countPart:
  "(t, c') \<in> set (backtrack countPart u c) \<longleftrightarrow>
     t = [] \<and> (\<exists>N H. u = N @ ''-g'' @ H \<and> countAndHash N H \<and> c' = c(2 \<mapsto> N, 3 \<mapsto> H))"
  (is "?L \<longleftrightarrow> ?R")
proof
  assume ?L
  then obtain t1 c1 where
    1: "(t1, c1) \<in> set (backtrack (OpCapture 2 (OpPlus (OpCharClass ''0123456789''))) u c)"
    and 2: "(t, c') \<in> set (backtrack gPart t1 c1)"
    unfolding countPart_def concat_mem by blast
  from 1 obtain x p where u: "u = x # p @ t1" and x: "x \<in> set ''0123456789''"
    and p: "list_all (\<lambda>x. x \<in> set ''0123456789'') p"
    and c1: "c1 = c(2 \<mapsto> x # p)"
    unfolding capture_plus_class_mem by blast
  from 2 obtain H where H: "t1 = ''-g'' @ H" "length H = 14" "list_all isHex H"
    and t: "t = []" and c': "c' = c1(3 \<mapsto> drop 2 t1)"
    by (auto simp: backtrack_gPart split: if_splits)
  have "u = (x # p) @ ''-g'' @ H" using u H by simp
  moreover have "countAndHash (x # p) H"
    using x p H by (simp add: countAndHash_def isDigit_def list_all_digit [symmetric] del: set_simps)
  moreover have "c' = c(2 \<mapsto> x # p, 3 \<mapsto> H)"
    using c' c1 H by simp
  ultimately show ?R using t by blast
next
  assume ?R
  then obtain N H where t: "t = []" and u: "u = N @ ''-g'' @ H" and s: "countAndHash N H"
    and c': "c' = c(2 \<mapsto> N, 3 \<mapsto> H)" by blast
  from s obtain x p where N: "N = x # p" by (cases N) (auto simp: countAndHash_def)
  let ?t1 = "''-g'' @ H"
  have "u = x # p @ ?t1 \<and> x \<in> set ''0123456789'' \<and> list_all (\<lambda>x. x \<in> set ''0123456789'') p"
    using s N u by (simp add: countAndHash_def isDigit_def list_all_digit del: set_simps)
  then have "(?t1, c(2 \<mapsto> N)) \<in> set (backtrack (OpCapture 2 (OpPlus (OpCharClass ''0123456789''))) u c)"
    unfolding capture_plus_class_mem N by blast
  moreover have "(t, c') \<in> set (backtrack gPart ?t1 (c(2 \<mapsto> N)))"
    using s t c' by (auto simp: backtrack_gPart countAndHash_def)
  ultimately show ?L
    unfolding countPart_def concat_mem by blast
qed

lemma backtrack_semverPattern:
  "(t, c') \<in> set (backtrack semverPattern u c) \<longleftrightarrow>
     t = [] \<and> (\<exists>A N H. u = A @ ''-'' @ N @ ''-g'' @ H \<and> A \<noteq> [] \<and> newline \<notin> set A
                  \<and> countAndHash N H \<and> c' = c(1 \<mapsto> A, 2 \<mapsto> N, 3 \<mapsto> H))"
  (is "?L \<longleftrightarrow> ?R")
proof
  assume ?L
  then obtain t1 c1 t2 c2 where
    1: "(t1, c1) \<in> set (backtrack (OpCapture 1 (OpPlus OpAnyCharNotNL)) u c)"
    and 2: "(t2, c2) \<in> set (backtrack (OpLiteral CHR ''-'') t1 c1)"
    and 3: "(t, c') \<in> set (backtrack countPart t2 c2)"
    unfolding semverPattern_parts concat_mem by blast
  from 1 obtain x p where u: "u = x # p @ t1" and x: "x \<noteq> newline"
    and p: "list_all (\<lambda>x. x \<noteq> newline) p" and c1: "c1 = c(1 \<mapsto> x # p)"
    unfolding capture_plus_any_mem by blast
  from 2 have t1: "t1 = CHR ''-'' # t2" and c2: "c2 = c1"
    unfolding literal_mem by auto
  from 3 obtain N H where t: "t = []" and t2: "t2 = N @ ''-g'' @ H" and s: "countAndHash N H"
    and c': "c' = c2(2 \<mapsto> N, 3 \<mapsto> H)"
    unfolding backtrack_countPart by blast
  have "u = (x # p) @ ''-'' @ N @ ''-g'' @ H" using u t1 t2 by simp
  moreover have "newline \<notin> set (x # p)" using x p by (auto simp: list_all_iff)
  ultimately show ?R using t s c' c2 c1 by blast
next
  assume ?R
  then obtain A N H where t: "t = []" and u: "u = A @ ''-'' @ N @ ''-g'' @ H" and A: "A \<noteq> []"
    "newline \<notin> set A" and s: "countAndHash N H" and c': "c' = c(1 \<mapsto> A, 2 \<mapsto> N, 3 \<mapsto> H)"
    by blast
  from A obtain x p where Ax: "A = x # p" by (cases A) auto
  let ?t2 = "N @ ''-g'' @ H"
  let ?t1 = "CHR ''-'' # ?t2"
  have "u = x # p @ ?t1 \<and> x \<noteq> newline \<and> list_all (\<lambda>x. x \<noteq> newline) p"
    using u A Ax by (auto simp: list_all_iff)
  then have "(?t1, c(1 \<mapsto> A)) \<in> set (backtrack (OpCapture 1 (OpPlus OpAnyCharNotNL)) u c)"
    unfolding capture_plus_any_mem Ax by blast
  moreover have "(?t2, c(1 \<mapsto> A)) \<in> set (backtrack (OpLiteral CHR ''-'') ?t1 (c(1 \<mapsto> A)))"
    unfolding literal_mem by simp
  moreover have "(t, c') \<in> set (backtrack countPart ?t2 (c(1 \<mapsto> A)))"
    unfolding backtrack_countPart using t s c' by blast
  ultimately show ?L
    unfolding semverPattern_parts concat_mem by blast
qed

section \<open>What \<^verbatim>\<open>semverify\<close> computes\<close>

lemma shape_unique:
  assumes eq: "A @ ''-'' @ N @ ''-g'' @ H = A' @ ''-'' @ N' @ ''-g'' @ H'"
    and s: "countAndHash N H" and s': "countAndHash N' H'"
  shows "A = A' \<and> N = N' \<and> H = H'"
proof -
  have len: "length H = length H'"
    using s s' by (simp add: countAndHash_def)
  have "(A @ ''-'' @ N @ ''-g'') @ H = (A' @ ''-'' @ N' @ ''-g'') @ H'"
    using eq by simp
  moreover have "(X @ H = X' @ H') = (X = X' \<and> H = H')" for X X' :: string
    by (rule append_eq_append_conv) (simp add: len)
  ultimately have 1: "A @ ''-'' @ N @ ''-g'' = A' @ ''-'' @ N' @ ''-g''" and H: "H = H'"
    by blast+
  from 1 have "(A @ ''-'' @ N) @ ''-g'' = (A' @ ''-'' @ N') @ ''-g''"
    by simp
  then have 2: "A @ ''-'' @ N = A' @ ''-'' @ N'"
    by (simp only: append_same_eq)
  have tw: "takeWhile isDigit (rev (B @ ''-'' @ M)) = rev M" if "list_all isDigit M" for B M
  proof -
    have "rev (B @ ''-'' @ M) = rev M @ CHR ''-'' # rev B" by simp
    moreover have "takeWhile isDigit (rev M @ CHR ''-'' # rev B) = rev M"
      using that by (simp add: takeWhile_tail isDigit_def list_all_iff)
    ultimately show ?thesis by simp
  qed
  have "takeWhile isDigit (rev (A @ ''-'' @ N)) = rev N"
    by (rule tw) (use s in \<open>simp add: countAndHash_def\<close>)
  moreover have "takeWhile isDigit (rev (A' @ ''-'' @ N')) = rev N'"
    by (rule tw) (use s' in \<open>simp add: countAndHash_def\<close>)
  ultimately have "rev N = rev N'"
    by (metis 2)
  then have N: "N = N'" by simp
  with 2 have "A = A'" by simp
  with N H show ?thesis by simp
qed

lemma matchHere_semver_Some:
  assumes u: "u = A @ ''-'' @ N @ ''-g'' @ H" and A: "A \<noteq> []" "newline \<notin> set A"
    and s: "countAndHash N H"
  shows "matchHere semverPattern u = Some (u, [1 \<mapsto> A, 2 \<mapsto> N, 3 \<mapsto> H])"
proof -
  have "([], [1 \<mapsto> A, 2 \<mapsto> N, 3 \<mapsto> H]) \<in> set (backtrack semverPattern u Map.empty)"
    unfolding backtrack_semverPattern using u A s by blast
  then obtain t c' rest where bt: "backtrack semverPattern u Map.empty = (t, c') # rest"
    by (cases "backtrack semverPattern u Map.empty") auto
  then have "(t, c') \<in> set (backtrack semverPattern u Map.empty)" by simp
  then obtain A' N' H' where t: "t = []" and u': "u = A' @ ''-'' @ N' @ ''-g'' @ H'"
    and s': "countAndHash N' H'" and c': "c' = [1 \<mapsto> A', 2 \<mapsto> N', 3 \<mapsto> H']"
    unfolding backtrack_semverPattern by blast
  from shape_unique [OF u [symmetric, unfolded u'] s s'] c'
  have "c' = [1 \<mapsto> A, 2 \<mapsto> N, 3 \<mapsto> H]" by simp
  with bt t show ?thesis by (simp add: matchHere_def)
qed

lemma matchHere_semver_None:
  assumes "\<And>A N H. u = A @ ''-'' @ N @ ''-g'' @ H \<Longrightarrow> countAndHash N H \<Longrightarrow> A = [] \<or> newline \<in> set A"
  shows "matchHere semverPattern u = None"
proof (cases "backtrack semverPattern u Map.empty")
  case Nil
  then show ?thesis by (simp add: matchHere_def)
next
  case (Cons a rest)
  obtain t c' where "a = (t, c')" by (cases a)
  with Cons have "(t, c') \<in> set (backtrack semverPattern u Map.empty)" by simp
  then obtain A N H where "u = A @ ''-'' @ N @ ''-g'' @ H" "A \<noteq> []" "newline \<notin> set A"
    "countAndHash N H"
    unfolding backtrack_semverPattern by blast
  with assms show ?thesis by blast
qed

lemma leftmost_skip:
  assumes "\<And>q. q \<noteq> [] \<Longrightarrow> suffix q pre \<Longrightarrow> matchHere r (q @ t) = None"
  shows "leftmost r (pre @ t) = leftmost r t"
  using assms
proof (induction pre)
  case Nil
  show ?case by simp
next
  case (Cons x pre)
  have "matchHere r ((x # pre) @ t) = None"
    by (rule Cons.prems) simp_all
  moreover have "leftmost r (pre @ t) = leftmost r t"
    by (rule Cons.IH) (simp add: Cons.prems suffix_ConsI)
  ultimately show ?case by simp
qed

lemma leftmost_here: "matchHere r t = Some m \<Longrightarrow> leftmost r t = Some m"
  by (cases t) simp_all

lemma leftmost_None:
  assumes "\<And>t. suffix t s \<Longrightarrow> matchHere r t = None"
  shows "leftmost r s = None"
  using assms
proof (induction s)
  case Nil
  then show ?case by simp
next
  case (Cons x s)
  have "matchHere r (x # s) = None" by (rule Cons.prems) simp
  moreover have "leftmost r s = None"
    by (rule Cons.IH) (simp add: Cons.prems suffix_ConsI)
  ultimately show ?case by simp
qed

lemma numSubexp_OpRepeat: "numSubexp (OpRepeat n r) = (if n = 0 then 0 else numSubexp r)"
  by (induction n) auto

lemma numSubexp_semverPattern: "numSubexp semverPattern = 3"
  by (simp add: semverPattern_def OpPlus_def numSubexp_OpRepeat)

lemma groups_3: "map f [1..<Suc 3] = [f 1, f 2, f 3]"
  by (simp add: upt_rec numeral_2_eq_2 numeral_3_eq_3)

lemma FindStringSubmatch_semver_match:
  assumes s: "s = pre @ b @ ''-'' @ N @ ''-g'' @ H" and b: "b \<noteq> []" "newline \<notin> set b"
    and pre: "pre = [] \<or> last pre = newline" and sh: "countAndHash N H"
  shows "FindStringSubmatch semverPattern s = [b @ ''-'' @ N @ ''-g'' @ H, b, N, H]"
proof -
  let ?t = "b @ ''-'' @ N @ ''-g'' @ H"
  have here: "matchHere semverPattern ?t = Some (?t, [1 \<mapsto> b, 2 \<mapsto> N, 3 \<mapsto> H])"
    by (rule matchHere_semver_Some [OF refl b sh])
  have skip: "matchHere semverPattern (q @ ?t) = None" if q: "q \<noteq> []" "suffix q pre" for q
  proof (rule matchHere_semver_None)
    fix A N' H'
    assume eq: "q @ ?t = A @ ''-'' @ N' @ ''-g'' @ H'" and sh': "countAndHash N' H'"
    have "(q @ b) @ ''-'' @ N @ ''-g'' @ H = A @ ''-'' @ N' @ ''-g'' @ H'"
      using eq by simp
    from shape_unique [OF this sh sh'] have A: "A = q @ b" by simp
    from q pre have "pre \<noteq> []" "last pre = newline" by auto
    with q have "last q = newline" by (auto simp: suffix_def)
    with q have "newline \<in> set q" by (metis last_in_set)
    with A show "A = [] \<or> newline \<in> set A" by simp
  qed
  have "leftmost semverPattern s = Some (?t, [1 \<mapsto> b, 2 \<mapsto> N, 3 \<mapsto> H])"
    unfolding s using leftmost_skip [of pre semverPattern ?t, OF skip] leftmost_here [OF here]
    by simp
  then have "FindStringSubmatch semverPattern s =
      ?t # map (\<lambda>i. case [1 \<mapsto> b, 2 \<mapsto> N, 3 \<mapsto> H] i of None \<Rightarrow> [] | Some g \<Rightarrow> g) [1..<Suc 3]"
    by (simp only: FindStringSubmatch_def numSubexp_semverPattern option.case prod.case)
  then show ?thesis
    unfolding groups_3 by simp
qed

lemma split_last_line:
  assumes "X \<noteq> []" "last X \<noteq> newline"
  shows "\<exists>pre b. X = pre @ b \<and> b \<noteq> [] \<and> newline \<notin> set b \<and> (pre = [] \<or> last pre = newline)"
proof -
  let ?b = "rev (takeWhile (\<lambda>x. x \<noteq> newline) (rev X))"
  let ?pre = "rev (dropWhile (\<lambda>x. x \<noteq> newline) (rev X))"
  have "X = ?pre @ ?b"
    by (metis rev_append rev_rev_ident takeWhile_dropWhile_id)
  moreover have "?b \<noteq> []"
    using assms by (cases "rev X") (auto simp: last_rev)
  moreover have "newline \<notin> set ?b"
    by (auto dest: set_takeWhileD)
  moreover have "?pre = [] \<or> last ?pre = newline"
  proof (cases "dropWhile (\<lambda>x. x \<noteq> newline) (rev X)")
    case Nil
    then show ?thesis by simp
  next
    case (Cons y ys)
    then have "y = newline" using hd_dropWhile [of "\<lambda>x. x \<noteq> newline" "rev X"] by auto
    with Cons show ?thesis by simp
  qed
  ultimately show ?thesis by blast
qed

lemma FindStringSubmatch_semver_nomatch:
  assumes "\<And>A N H. s = A @ ''-'' @ N @ ''-g'' @ H \<Longrightarrow> countAndHash N H \<Longrightarrow> A = [] \<or> last A = newline"
  shows "FindStringSubmatch semverPattern s = []"
proof -
  have "matchHere semverPattern t = None" if "suffix t s" for t
  proof (rule matchHere_semver_None)
    fix A N H
    assume t: "t = A @ ''-'' @ N @ ''-g'' @ H" and sh: "countAndHash N H"
    from that obtain x where "s = x @ t" by (auto simp: suffix_def)
    with t have "s = (x @ A) @ ''-'' @ N @ ''-g'' @ H" by simp
    from assms [OF this sh] have "x @ A = [] \<or> last (x @ A) = newline" .
    then show "A = [] \<or> newline \<in> set A"
      by (cases "A = []") (auto dest: last_in_set)
  qed
  then have "leftmost semverPattern s = None" by (rule leftmost_None)
  then show ?thesis by (simp add: FindStringSubmatch_def)
qed

lemma expand_semver: "expand ''$1.$2+$3'' [m, a, b, c] = a @ ''.'' @ b @ ''+'' @ c"
proof -
  have "expand ''$1.$2+$3'' [m, a, b, c] = a @ CHR ''.'' # b @ CHR ''+'' # c @ []"
    by code_simp
  then show ?thesis by simp
qed

lemma semverify_match:
  assumes "s = pre @ b @ ''-'' @ N @ ''-g'' @ H" "b \<noteq> []" "newline \<notin> set b"
    "pre = [] \<or> last pre = newline" "countAndHash N H"
  shows "semverify s = b @ ''.'' @ N @ ''+'' @ H"
  by (simp add: semverify_def FindStringSubmatch_semver_match [OF assms] ExpandString_def
      expand_semver del: expand.simps)

lemma semverify_nomatch:
  assumes "\<And>A N H. s = A @ ''-'' @ N @ ''-g'' @ H \<Longrightarrow> countAndHash N H \<Longrightarrow> A = [] \<or> last A = newline"
  shows "semverify s = s"
  by (simp add: semverify_def FindStringSubmatch_semver_nomatch [OF assms])

lemma semverify_cases:
  "(\<exists>pre b N H. s = pre @ b @ ''-'' @ N @ ''-g'' @ H \<and> b \<noteq> [] \<and> newline \<notin> set b
      \<and> (pre = [] \<or> last pre = newline) \<and> countAndHash N H
      \<and> semverify s = b @ ''.'' @ N @ ''+'' @ H)
   \<or> (FindStringSubmatch semverPattern s = [] \<and> semverify s = s)"
proof (cases "\<exists>A N H. s = A @ ''-'' @ N @ ''-g'' @ H \<and> countAndHash N H \<and> A \<noteq> [] \<and> last A \<noteq> newline")
  case True
  then obtain A N H where s: "s = A @ ''-'' @ N @ ''-g'' @ H" and sh: "countAndHash N H"
    and A: "A \<noteq> []" "last A \<noteq> newline" by blast
  from split_last_line [OF A] obtain pre b where
    pb: "A = pre @ b" "b \<noteq> []" "newline \<notin> set b" "pre = [] \<or> last pre = newline" by blast
  have s': "s = pre @ b @ ''-'' @ N @ ''-g'' @ H" using s pb by simp
  from semverify_match [OF s' pb(2-4) sh] s' pb sh show ?thesis by blast
next
  case False
  then have "FindStringSubmatch semverPattern s = []"
    by (intro FindStringSubmatch_semver_nomatch) blast
  then show ?thesis
    by (simp add: semverify_def)
qed

lemma hash_last_hex:
  assumes "length H = 14" "list_all isHex H"
  shows "isHex (last (X @ H))"
proof -
  from assms have "H \<noteq> []" by auto
  then have "last (X @ H) \<in> set H" by simp
  with assms show ?thesis by (simp add: list_all_iff)
qed

lemma hash_not_dirty:
  assumes "length H = 14" "list_all isHex H"
  shows "\<not> suffix ''-dirty'' (X @ H)"
proof
  assume "suffix ''-dirty'' (X @ H)"
  then obtain Y where "X @ H = Y @ ''-dirty''" by (auto simp: suffix_def)
  then have "last (X @ H) = CHR ''y''" by simp
  with hash_last_hex [OF assms, of X] show False by (simp add: isHex_def)
qed

lemma nomatch_dirty: "FindStringSubmatch semverPattern (v @ ''-dirty'') = []"
proof (rule FindStringSubmatch_semver_nomatch)
  fix A N H
  assume eq: "v @ ''-dirty'' = A @ ''-'' @ N @ ''-g'' @ H" and sh: "countAndHash N H"
  have "isHex (last ((A @ ''-'' @ N @ ''-g'') @ H))"
    by (rule hash_last_hex) (use sh in \<open>simp_all add: countAndHash_def\<close>)
  moreover have "last ((A @ ''-'' @ N @ ''-g'') @ H) = CHR ''y''"
    using eq [symmetric] by simp
  ultimately have False by (simp add: isHex_def)
  then show "A = [] \<or> last A = newline" ..
qed

lemma semverify_dirty: "semverify (v @ ''-dirty'') = v @ ''-dirty''"
  by (simp add: semverify_def nomatch_dirty)

lemma nomatch_rewritten:
  assumes sh: "countAndHash N H"
  shows "FindStringSubmatch semverPattern (b @ ''.'' @ N @ ''+'' @ H) = []"
proof (rule FindStringSubmatch_semver_nomatch)
  fix A N' H'
  assume eq: "b @ ''.'' @ N @ ''+'' @ H = A @ ''-'' @ N' @ ''-g'' @ H'" and sh': "countAndHash N' H'"
  have len: "length H = length H'"
    using sh sh' by (simp add: countAndHash_def)
  have "(b @ ''.'' @ N @ ''+'') @ H = (A @ ''-'' @ N' @ ''-g'') @ H'"
    using eq by simp
  moreover have "(X @ H = X' @ H') = (X = X' \<and> H = H')" for X X' :: string
    by (rule append_eq_append_conv) (simp add: len)
  ultimately have "b @ ''.'' @ N @ ''+'' = A @ ''-'' @ N' @ ''-g''"
    by blast
  then have "last (b @ ''.'' @ N @ ''+'') = last (A @ ''-'' @ N' @ ''-g'')"
    by (rule arg_cong)
  then have False by simp
  then show "A = [] \<or> last A = newline" ..
qed

lemma nomatch_semverify: "FindStringSubmatch semverPattern (semverify x) = []"
  using semverify_cases [of x] nomatch_rewritten by auto

lemma semverify_idem: "semverify (semverify x) = semverify x"
  using nomatch_semverify [of x] by (simp add: semverify_def [of "semverify x"])

lemma semverify_suffix_dirty: "suffix ''-dirty'' (semverify v) \<longleftrightarrow> suffix ''-dirty'' v"
proof -
  from semverify_cases [of v] consider
    pre b N H where "v = pre @ b @ ''-'' @ N @ ''-g'' @ H" "countAndHash N H"
      "semverify v = b @ ''.'' @ N @ ''+'' @ H"
    | "semverify v = v" by blast
  then show ?thesis
  proof cases
    case 1
    have "\<not> suffix ''-dirty'' ((b @ ''.'' @ N @ ''+'') @ H)"
      by (rule hash_not_dirty) (use 1 in \<open>simp_all add: countAndHash_def\<close>)
    moreover have "\<not> suffix ''-dirty'' ((pre @ b @ ''-'' @ N @ ''-g'') @ H)"
      by (rule hash_not_dirty) (use 1 in \<open>simp_all add: countAndHash_def\<close>)
    ultimately show ?thesis using 1 by simp
  next
    case 2
    then show ?thesis by simp
  qed
qed


section \<open>What \<^verbatim>\<open>parseToolVersion\<close> computes\<close>

lemma star_mem:
  "(t, c') \<in> set (backtrack (OpStar r) s c) \<longleftrightarrow>
     (t, c') = (s, c) \<or>
     (\<exists>s1 c1. (s1, c1) \<in> set (backtrack r s c) \<and> length s1 < length s
        \<and> (t, c') \<in> set (backtrack (OpStar r) s1 c1))"
  by (subst backtrack.simps(7)) (auto split: if_splits)

lemma captureFree_caps:
  "captureFree r \<Longrightarrow> (t, c') \<in> set (backtrack r s c) \<Longrightarrow> c' = c"
proof (induction r s c arbitrary: t c' rule: backtrack.induct)
  case (1 s caps)
  then show ?case by simp
next
  case (2 a s caps)
  then show ?case by (simp add: literal_mem)
next
  case (3 cls s caps)
  then show ?case by (cases s) (auto split: if_splits)
next
  case (4 s caps)
  then show ?case by (cases s) (auto split: if_splits)
next
  case (5 s caps)
  then show ?case by (auto split: if_splits)
next
  case (6 n r s caps)
  then show ?case by simp
next
  case (7 r s caps)
  from "7.prems"(2) consider "(t, c') = (s, caps)"
    | s1 c1 where "(s1, c1) \<in> set (backtrack r s caps)" "length s1 < length s"
        "(t, c') \<in> set (backtrack (OpStar r) s1 c1)"
    unfolding star_mem [of t c' r s caps] by blast
  then show ?case
  proof cases
    case 1
    then show ?thesis by simp
  next
    case 2
    have cf: "captureFree r" using "7.prems"(1) by simp
    have "c1 = caps" by (rule "7.IH"(1) [OF cf 2(1)])
    moreover have "c' = c1"
      by (rule "7.IH"(2) [OF 2(1) refl 2(2) "7.prems"(1) 2(3)])
    ultimately show ?thesis by simp
  qed
next
  case (8 r1 r2 s caps)
  from "8.prems"(2) obtain s1 c1 where 1: "(s1, c1) \<in> set (backtrack r1 s caps)"
    and 2: "(t, c') \<in> set (backtrack r2 s1 c1)"
    unfolding concat_mem by blast
  have cf: "captureFree r1" "captureFree r2" using "8.prems"(1) by simp_all
  have "c1 = caps" by (rule "8.IH"(1) [OF cf(1) 1])
  moreover have "c' = c1" by (rule "8.IH"(2) [OF 1 refl cf(2) 2])
  ultimately show ?case by simp
qed

lemma patchPart_first: "\<exists>t rest. backtrack patchPart s c = (t, c) # rest"
proof -
  have "(s, c) \<in> set (backtrack patchPart s c)"
    unfolding patchPart_def star_mem [of s c _ s c] by simp
  then obtain t c' rest where bt: "backtrack patchPart s c = (t, c') # rest"
    by (cases "backtrack patchPart s c") auto
  then have "(t, c') \<in> set (backtrack patchPart s c)" by simp
  moreover have "captureFree patchPart" by (simp add: patchPart_def OpPlus_def)
  ultimately have "c' = c" by (rule captureFree_caps [rotated])
  with bt show ?thesis by blast
qed

lemma goVersionPattern_parts:
  "goVersionPattern =
     OpConcat (OpLiteral CHR ''g'') (OpConcat (OpLiteral CHR ''o'')
       (OpConcat (OpCapture 1 (OpCharClass ''123456789''))
          (OpConcat (OpLiteral CHR ''.'') minorPart)))"
  by (simp add: goVersionPattern_def minorPart_def patchPart_def)

lemma isDigit_class: "(\<lambda>x. x \<in> set ''0123456789'') = isDigit"
  by (simp add: isDigit_def [abs_def])

lemma take_run: "take (Suc (length xs) - length (dropWhile P xs)) (x # xs) = x # takeWhile P xs"
proof -
  have "length xs = length (takeWhile P xs) + length (dropWhile P xs)"
    by (metis length_append takeWhile_dropWhile_id)
  then have "Suc (length xs) - length (dropWhile P xs) = Suc (length (takeWhile P xs))"
    by simp
  moreover have "take (length (takeWhile P xs)) xs = takeWhile P xs"
    by (metis append_eq_conv_conj takeWhile_dropWhile_id)
  ultimately show ?thesis by simp
qed

lemma backtrack_minorPart_first:
  assumes "takeWhile isDigit u \<noteq> []"
  shows "\<exists>t rest. backtrack minorPart u c = (t, c(2 \<mapsto> takeWhile isDigit u)) # rest"
proof -
  from assms obtain x xs where u: "u = x # xs" and x: "isDigit x"
    by (cases u) (auto split: if_splits)
  obtain g where g: "greedy isDigit xs = dropWhile isDigit xs # g"
    using greedy_nonempty [of isDigit xs] greedy_hd [of isDigit xs]
    by (cases "greedy isDigit xs") auto
  let ?c2 = "c(2 \<mapsto> takeWhile isDigit u)"
  have "backtrack (OpCapture 2 (OpPlus (OpCharClass ''0123456789''))) u c =
          map (\<lambda>t. (t, c(2 \<mapsto> take (length u - length t) u))) (greedy isDigit xs)"
    using x by (simp add: u plus_class isDigit_class comp_def del: set_simps) (simp add: isDigit_def)
  also have "\<dots> = (dropWhile isDigit xs, ?c2)
                 # map (\<lambda>t. (t, c(2 \<mapsto> take (length u - length t) u))) g"
    using x by (simp add: g u take_run)
  finally have cap: "backtrack (OpCapture 2 (OpPlus (OpCharClass ''0123456789''))) u c =
      (dropWhile isDigit xs, ?c2) # map (\<lambda>t. (t, c(2 \<mapsto> take (length u - length t) u))) g" .
  obtain t rest where "backtrack patchPart (dropWhile isDigit xs) ?c2 = (t, ?c2) # rest"
    using patchPart_first by blast
  then show ?thesis
    unfolding minorPart_def backtrack.simps(8) cap by simp
qed

lemma backtrack_minorPart_none:
  assumes "takeWhile isDigit u = []"
  shows "backtrack minorPart u c = []"
proof -
  have "backtrack (OpCapture 2 (OpPlus (OpCharClass ''0123456789''))) u c = []"
    using assms
    by (cases u) (auto simp: plus_class isDigit_def split: if_splits simp del: set_simps)
  then show ?thesis
    unfolding minorPart_def backtrack.simps(8) by simp
qed

lemma matchHere_goVersion_Some:
  assumes "tokenAt s = Some (d, m)"
  shows "\<exists>w. matchHere goVersionPattern s = Some (w, [1 \<mapsto> [d], 2 \<mapsto> m])"
proof -
  from assms obtain rest where s: "s = CHR ''g'' # CHR ''o'' # d # CHR ''.'' # rest"
    and d: "d \<in> set ''123456789''" and m: "m = takeWhile isDigit rest" "takeWhile isDigit rest \<noteq> []"
    by (cases s rule: tokenAt.cases) (auto split: if_splits simp del: set_simps)
  have "backtrack goVersionPattern s Map.empty = backtrack minorPart rest [1 \<mapsto> [d]]"
    using d unfolding goVersionPattern_parts s by (simp del: set_simps)
  moreover obtain t tl where "backtrack minorPart rest [1 \<mapsto> [d]] = (t, [1 \<mapsto> [d], 2 \<mapsto> m]) # tl"
    using backtrack_minorPart_first [OF m(2)] m(1) by blast
  ultimately show ?thesis
    by (simp add: matchHere_def)
qed

lemma matchHere_goVersion_None:
  assumes "tokenAt s = None"
  shows "matchHere goVersionPattern s = None"
proof -
  have "backtrack goVersionPattern s Map.empty = []"
  proof (cases s rule: tokenAt.cases)
    case (1 g o' d dot rest)
    show ?thesis
    proof (cases "g = CHR ''g'' \<and> o' = CHR ''o'' \<and> d \<in> set ''123456789'' \<and> dot = CHR ''.''")
      case True
      with assms 1 have "takeWhile isDigit rest = []"
        by (simp del: set_simps split: if_splits)
      from backtrack_minorPart_none [OF this] True show ?thesis
        unfolding goVersionPattern_parts 1 by (simp del: set_simps)
    next
      case False
      then show ?thesis
        unfolding goVersionPattern_parts 1 by (auto simp del: set_simps)
    qed
  qed (simp_all add: goVersionPattern_parts)
  then show ?thesis by (simp add: matchHere_def)
qed

lemma leftmost_goVersion_Some:
  "firstToken s = Some (d, m) \<Longrightarrow> \<exists>w. leftmost goVersionPattern s = Some (w, [1 \<mapsto> [d], 2 \<mapsto> m])"
proof (induction s)
  case Nil
  then show ?case by simp
next
  case (Cons x xs)
  show ?case
  proof (cases "tokenAt (x # xs)")
    case None
    with Cons matchHere_goVersion_None [OF None] show ?thesis by simp
  next
    case (Some tok)
    with Cons.prems have "tokenAt (x # xs) = Some (d, m)" by simp
    from matchHere_goVersion_Some [OF this] obtain w where
      "matchHere goVersionPattern (x # xs) = Some (w, [1 \<mapsto> [d], 2 \<mapsto> m])" ..
    then have "leftmost goVersionPattern (x # xs) = Some (w, [1 \<mapsto> [d], 2 \<mapsto> m])"
      by (rule leftmost_here)
    then show ?thesis ..
  qed
qed

lemma leftmost_goVersion_None:
  "firstToken s = None \<Longrightarrow> leftmost goVersionPattern s = None"
proof (induction s)
  case Nil
  then show ?case by (simp add: matchHere_goVersion_None)
next
  case (Cons x xs)
  then have "tokenAt (x # xs) = None" "firstToken xs = None"
    by (auto split: option.splits)
  with Cons.IH matchHere_goVersion_None [of "x # xs"] show ?case by simp
qed

lemma numSubexp_goVersionPattern: "numSubexp goVersionPattern = 2"
  by (simp add: goVersionPattern_def OpPlus_def)

lemma groups_2: "map f [1..<Suc 2] = [f 1, f 2]"
  by (simp add: upt_rec numeral_2_eq_2)

lemma FindStringSubmatch_goVersion_Some:
  assumes "firstToken s = Some (d, m)"
  shows "\<exists>w. FindStringSubmatch goVersionPattern s = [w, [d], m]"
proof -
  from leftmost_goVersion_Some [OF assms] obtain w where
    "leftmost goVersionPattern s = Some (w, [1 \<mapsto> [d], 2 \<mapsto> m])" ..
  then have "FindStringSubmatch goVersionPattern s =
      w # map (\<lambda>i. case [1 \<mapsto> [d], 2 \<mapsto> m] i of None \<Rightarrow> [] | Some g \<Rightarrow> g) [1..<Suc 2]"
    by (simp only: FindStringSubmatch_def numSubexp_goVersionPattern option.case prod.case)
  then show ?thesis
    unfolding groups_2 by simp
qed

lemma FindStringSubmatch_goVersion_None:
  "firstToken s = None \<Longrightarrow> FindStringSubmatch goVersionPattern s = []"
  by (simp add: FindStringSubmatch_def leftmost_goVersion_None)

lemma digitVal_range: "isDigit c \<Longrightarrow> 0 \<le> digitVal c \<and> digitVal c \<le> 9"
  by (auto simp: isDigit_def digitVal_def)

lemma digitVal_major: "d \<in> set ''123456789'' \<Longrightarrow> 1 \<le> digitVal d \<and> digitVal d \<le> 9"
  by (auto simp: digitVal_def)

lemma foldl_digits_ge:
  "list_all isDigit ds \<Longrightarrow> 0 \<le> n \<Longrightarrow> n \<le> foldl (\<lambda>n c. n * 10 + digitVal c) n ds"
proof (induction ds arbitrary: n)
  case Nil
  then show ?case by simp
next
  case (Cons c ds)
  from Cons.prems have c: "0 \<le> digitVal c" and ds: "list_all isDigit ds"
    using digitVal_range [of c] by simp_all
  from c Cons.prems(2) have "n \<le> n * 10 + digitVal c" by simp
  also have "\<dots> \<le> foldl (\<lambda>n c. n * 10 + digitVal c) (n * 10 + digitVal c) ds"
    using c Cons.prems(2) by (intro Cons.IH [OF ds]) simp
  finally show ?case by simp
qed

lemma parseUint_digits:
  "list_all isDigit ds \<Longrightarrow> 0 \<le> n \<Longrightarrow> n < 2 ^ 64 \<Longrightarrow>
     parseUint ds n =
       (if foldl (\<lambda>n c. n * 10 + digitVal c) n ds < 2 ^ 64
        then Inr (foldl (\<lambda>n c. n * 10 + digitVal c) n ds) else Inl ErrRange)"
proof (induction ds arbitrary: n)
  case Nil
  then show ?case by simp
next
  case (Cons c ds)
  from Cons.prems have c: "isDigit c" "0 \<le> digitVal c" and ds: "list_all isDigit ds"
    using digitVal_range [of c] by simp_all
  let ?n = "n * 10 + digitVal c"
  have n: "0 \<le> ?n" using c Cons.prems(2) by simp
  show ?case
  proof (cases "?n \<ge> 2 ^ 64")
    case True
    with foldl_digits_ge [OF ds n] have "\<not> foldl (\<lambda>n c. n * 10 + digitVal c) ?n ds < 2 ^ 64"
      by simp
    with True c show ?thesis by simp
  next
    case False
    then have "?n < 2 ^ 64" by simp
    from Cons.IH [OF ds n this] False c show ?thesis by simp
  qed
qed

lemma Atoi_digits:
  assumes "ds \<noteq> []" "list_all isDigit ds"
  shows "Atoi ds = (if decimal ds \<le> maxInt then Inr (decimal ds) else Inl ErrRange)"
proof -
  from assms obtain c cs where ds: "ds = c # cs" and c: "isDigit c"
    by (cases ds) auto
  from c have sign: "c \<noteq> CHR ''+''" "c \<noteq> CHR ''-''"
    by (auto simp: isDigit_def)
  have "parseUint ds 0 = (if decimal ds < 2 ^ 64 then Inr (decimal ds) else Inl ErrRange)"
    using parseUint_digits [OF assms(2), of 0] by (simp add: decimal_def)
  with sign show ?thesis
    by (simp add: Atoi_def ds maxInt_def)
qed

lemma mustAtoi_digits:
  assumes "ds \<noteq> []" "list_all isDigit ds"
  shows "mustAtoi ds = (if decimal ds \<le> maxInt then Inr (decimal ds) else Inl ErrRange)"
  by (simp add: mustAtoi_def Atoi_digits [OF assms])

lemma mustAtoi_major:
  assumes "d \<in> set ''123456789''"
  shows "mustAtoi [d] = Inr (digitVal d)"
proof -
  from assms have "isDigit d" by (auto simp: isDigit_def)
  then have "mustAtoi [d] = (if decimal [d] \<le> maxInt then Inr (decimal [d]) else Inl ErrRange)"
    by (intro mustAtoi_digits) simp_all
  moreover have "decimal [d] = digitVal d" by (simp add: decimal_def)
  moreover have "digitVal d \<le> maxInt"
    using digitVal_major [OF assms] by (simp add: maxInt_def)
  ultimately show ?thesis by simp
qed

lemma tokenAt_Some:
  "tokenAt s = Some (d, m) \<Longrightarrow> d \<in> set ''123456789'' \<and> m \<noteq> [] \<and> list_all isDigit m"
  by (cases s rule: tokenAt.cases)
    (auto split: if_splits simp: list_all_iff dest: set_takeWhileD simp del: set_simps)

lemma firstToken_Some:
  "firstToken s = Some (d, m) \<Longrightarrow> d \<in> set ''123456789'' \<and> m \<noteq> [] \<and> list_all isDigit m"
proof (induction s)
  case Nil
  then show ?case by simp
next
  case (Cons x xs)
  then show ?case
    by (cases "tokenAt (x # xs)") (auto dest: tokenAt_Some simp del: set_simps tokenAt.simps)
qed

lemma decimal_nonneg: "list_all isDigit m \<Longrightarrow> 0 \<le> decimal m"
  using foldl_digits_ge [of m 0] by (simp add: decimal_def)

lemma wrapInt_id: "- (2 ^ 63) \<le> x \<Longrightarrow> x \<le> maxInt \<Longrightarrow> wrapInt x = x"
  by (simp add: wrapInt_def maxInt_def)

lemma parseToolVersion_Some:
  assumes tok: "firstToken s = Some (d, m)"
  shows "parseToolVersion s =
           (if decimal m \<le> maxInt then Inr (wrapInt (digitVal d * 10 + decimal m))
            else Inl ErrRange)"
proof -
  from firstToken_Some [OF tok] have d: "d \<in> set ''123456789''" and m: "m \<noteq> []" "list_all isDigit m"
    by simp_all
  from FindStringSubmatch_goVersion_Some [OF tok] obtain w where
    fs: "FindStringSubmatch goVersionPattern s = [w, [d], m]" ..
  have "wrapInt (digitVal d * 10) = digitVal d * 10"
    using digitVal_major [OF d] by (intro wrapInt_id) (simp_all add: maxInt_def)
  then show ?thesis
    by (simp add: parseToolVersion_def fs mustAtoi_major [OF d] mustAtoi_digits [OF m])
qed

lemma parseToolVersion_None:
  "firstToken s = None \<Longrightarrow> parseToolVersion s = Inr toolVersionUnknown"
  by (simp add: parseToolVersion_def FindStringSubmatch_goVersion_None)


lemma tokenAt_not_g: "x \<noteq> CHR ''g'' \<Longrightarrow> tokenAt (x # t) = None"
  by (cases "x # t" rule: tokenAt.cases) (simp_all del: set_simps)

lemma firstToken_shape:
  assumes pre: "CHR ''g'' \<notin> set pre" and d: "d \<in> set ''123456789''"
    and m: "m \<noteq> []" "list_all isDigit m" and rest: "rest = [] \<or> \<not> isDigit (hd rest)"
  shows "firstToken (pre @ ''go'' @ [d] @ ''.'' @ m @ rest) = Some (d, m)"
  using pre
proof (induction pre)
  case Nil
  have "takeWhile isDigit (m @ rest) = m"
  proof (cases rest)
    case Nil
    with m show ?thesis by (simp add: list_all_iff)
  next
    case (Cons y ys)
    with rest have "\<not> isDigit y" by simp
    with m Cons show ?thesis by (simp add: takeWhile_tail list_all_iff)
  qed
  with d m show ?case by (simp del: set_simps)
next
  case (Cons x pre)
  then have "x \<noteq> CHR ''g''" "CHR ''g'' \<notin> set pre" by auto
  with Cons.IH tokenAt_not_g [of x] show ?case by simp
qed


section \<open>What \<^verbatim>\<open>main\<close> does\<close>

lemma linkFlags_eq:
  "linkFlags gv cid ts v =
     (if cid \<noteq> [] then [linkFlag gv ''gitCommit'' cid, linkFlag gv ''gitTreeState'' ts] else [])
     @ (if v \<noteq> [] then [linkFlag gv ''version'' v] else [])"
  by (simp add: linkFlags_def)

lemma main_Printed:
  assumes "pkg \<noteq> []" "goToolVersion os = Inr (gv, None)"
    "commitID os (newGit pkg) = (cid, None)" "treeState os (newGit pkg) = (ts, None)"
    "version os (newGit pkg) cid = (raw, verr)"
  shows "main os pkg =
           Printed (Join (linkFlags gv cid ts (finalVersion (if verr \<noteq> None then [] else raw) ts)) '' '')"
  using assms by (simp add: main_def)

lemma main_Printed_run:
  assumes "main os pkg = Printed out"
  shows "\<exists>gv cid ts raw verr.
           pkg \<noteq> [] \<and> goToolVersion os = Inr (gv, None)
         \<and> commitID os (newGit pkg) = (cid, None) \<and> treeState os (newGit pkg) = (ts, None)
         \<and> version os (newGit pkg) cid = (raw, verr)
         \<and> out = Join (linkFlags gv cid ts (finalVersion (if verr \<noteq> None then [] else raw) ts)) '' ''"
proof -
  from assms have pkg: "pkg \<noteq> []"
    by (auto simp: main_def split: if_splits)
  from assms pkg obtain gv where gv: "goToolVersion os = Inr (gv, None)"
    by (auto simp: main_def split: sum.splits prod.splits option.splits)
  obtain cid cerr where c: "commitID os (newGit pkg) = (cid, cerr)"
    by (cases "commitID os (newGit pkg)")
  with assms pkg gv have cerr: "cerr = None"
    by (cases cerr) (simp_all add: main_def)
  obtain ts terr where t: "treeState os (newGit pkg) = (ts, terr)"
    by (cases "treeState os (newGit pkg)")
  with assms pkg gv c cerr have terr: "terr = None"
    by (cases terr) (simp_all add: main_def)
  obtain raw verr where v: "version os (newGit pkg) cid = (raw, verr)"
    by (cases "version os (newGit pkg) cid")
  from main_Printed [OF pkg gv c [unfolded cerr] t [unfolded terr] v] assms
  have "out = Join (linkFlags gv cid ts (finalVersion (if verr \<noteq> None then [] else raw) ts)) '' ''"
    by simp
  with pkg gv c cerr t terr v show ?thesis by blast
qed

lemma goToolVersion_failed:
  "os ''go'' [''version''] = (out, Some e) \<Longrightarrow>
     goToolVersion os = Inr (toolVersionUnknown, Some \<lparr>tool = ''go'', output' = out, err = e\<rparr>)"
  by (simp add: goToolVersion_def)

lemma goToolVersion_unparsed:
  assumes "os ''go'' [''version''] = (out, None)"
    and "length (Split out CHR '' '') \<le> 2 \<or> firstToken (Split out CHR '' '' ! 2) = None"
  shows "goToolVersion os = Inr (toolVersionUnknown, None)"
  using assms by (auto simp: goToolVersion_def Let_def parseToolVersion_None)


section \<open>Claims about \<^verbatim>\<open>semverify\<close>\<close>

text \<open>
  Claim C1, as stated, fails where the text before \<^verbatim>\<open>-<N>-g<H>\<close> has a line break: the
  dot of the pattern does not match a newline, the match starts after the last newline,
  and only the matched text is expanded. Git writes warnings on the standard error,
  which \<^verbatim>\<open>CombinedOutput\<close> puts in front of the description.
\<close>

theorem semverify_prefix_counterexample:
  "countAndHash ''3'' ''0123456789abcd'' \<and>
   semverify ((''warning'' @ [newline] @ ''v1.0'') @ ''-'' @ ''3'' @ ''-g'' @ ''0123456789abcd'')
     = ''v1.0.3+0123456789abcd'' \<and>
   semverify ((''warning'' @ [newline] @ ''v1.0'') @ ''-'' @ ''3'' @ ''-g'' @ ''0123456789abcd'')
     \<noteq> (''warning'' @ [newline] @ ''v1.0'') @ ''.'' @ ''3'' @ ''+'' @ ''0123456789abcd''"
proof -
  have sh: "countAndHash ''3'' ''0123456789abcd''"
    by (simp add: countAndHash_def isDigit_def isHex_def)
  have "semverify ((''warning'' @ [newline]) @ ''v1.0'' @ ''-'' @ ''3'' @ ''-g'' @ ''0123456789abcd'')
          = ''v1.0'' @ ''.'' @ ''3'' @ ''+'' @ ''0123456789abcd''"
    by (rule semverify_match [OF refl _ _ _ sh]) (simp_all add: newline_def)
  with sh show ?thesis by simp
qed

text \<open>
  Claim C1, amended. When the text before \<^verbatim>\<open>-<N>-g<H>\<close> ends in a non-empty run \<open>b\<close>
  without a newline that starts the string or follows a newline, \<^verbatim>\<open>semverify\<close> returns
  \<^verbatim>\<open>b.<N>+<H>\<close>; with nothing before \<open>b\<close> that is \<^verbatim>\<open><prefix>.<N>+<H>\<close>. A string that
  does not end in the shape, or where the text before the shape is empty or ends in a
  newline, is returned unchanged.
\<close>

theorem semverify_describe:
  "(countAndHash N H \<and> b \<noteq> [] \<and> newline \<notin> set b \<and> (pre = [] \<or> last pre = newline) \<longrightarrow>
      semverify (pre @ b @ ''-'' @ N @ ''-g'' @ H) = b @ ''.'' @ N @ ''+'' @ H)
   \<and> ((\<forall>A N H. s = A @ ''-'' @ N @ ''-g'' @ H \<and> countAndHash N H \<longrightarrow> A = [] \<or> last A = newline) \<longrightarrow>
      semverify s = s)"
proof (intro conjI impI)
  assume "countAndHash N H \<and> b \<noteq> [] \<and> newline \<notin> set b \<and> (pre = [] \<or> last pre = newline)"
  then show "semverify (pre @ b @ ''-'' @ N @ ''-g'' @ H) = b @ ''.'' @ N @ ''+'' @ H"
    by (intro semverify_match [OF refl]) simp_all
next
  assume "\<forall>A N H. s = A @ ''-'' @ N @ ''-g'' @ H \<and> countAndHash N H \<longrightarrow> A = [] \<or> last A = newline"
  then show "semverify s = s"
    by (intro semverify_nomatch) blast
qed

text \<open>Claim C1, the amended statement at concrete describe strings.\<close>

theorem semverify_describe_witness:
  "semverify ''v1.2.0-0-gabc12300000000'' = ''v1.2.0.0+abc12300000000''
   \<and> semverify ''v1.2.0'' = ''v1.2.0''
   \<and> semverify ''-7-gabc12300000000'' = ''-7-gabc12300000000''"
proof -
  have sh: "countAndHash ''0'' ''abc12300000000''"
    by (simp add: countAndHash_def isDigit_def isHex_def)
  have 1: "semverify ([] @ ''v1.2.0'' @ ''-'' @ ''0'' @ ''-g'' @ ''abc12300000000'')
             = ''v1.2.0'' @ ''.'' @ ''0'' @ ''+'' @ ''abc12300000000''"
    using semverify_describe [of "''0''" "''abc12300000000''" "''v1.2.0''" "[]"] sh
    by (simp add: newline_def)
  have short: "\<forall>A N H. ''v1.2.0'' = A @ ''-'' @ N @ ''-g'' @ H \<and> countAndHash N H
                 \<longrightarrow> A = [] \<or> last A = newline"
  proof (intro allI impI)
    fix A N H :: string
    assume "''v1.2.0'' = A @ ''-'' @ N @ ''-g'' @ H \<and> countAndHash N H"
    then have "length ''v1.2.0'' = length (A @ ''-'' @ N @ ''-g'' @ H)" "length H = 14"
      by (simp_all add: countAndHash_def)
    then show "A = [] \<or> last A = newline" by simp
  qed
  have 2: "semverify ''v1.2.0'' = ''v1.2.0''"
    using semverify_describe [of _ _ _ _ "''v1.2.0''"] short by blast
  have empty: "\<forall>A N H. ''-7-gabc12300000000'' = A @ ''-'' @ N @ ''-g'' @ H \<and> countAndHash N H
                 \<longrightarrow> A = [] \<or> last A = newline"
  proof (intro allI impI)
    fix A N H :: string
    assume a: "''-7-gabc12300000000'' = A @ ''-'' @ N @ ''-g'' @ H \<and> countAndHash N H"
    have sh7: "countAndHash ''7'' ''abc12300000000''"
      by (simp add: countAndHash_def isDigit_def isHex_def)
    from a have "[] @ ''-'' @ ''7'' @ ''-g'' @ ''abc12300000000'' = A @ ''-'' @ N @ ''-g'' @ H"
      by simp
    from shape_unique [OF this sh7] a show "A = [] \<or> last A = newline" by simp
  qed
  have 3: "semverify ''-7-gabc12300000000'' = ''-7-gabc12300000000''"
    using semverify_describe [of _ _ _ _ "''-7-gabc12300000000''"] empty by blast
  from 1 2 3 show ?thesis by simp
qed

text \<open>
  Claim C8: the pattern matches neither an output of \<^verbatim>\<open>semverify\<close> nor such an output
  with the suffix \<^verbatim>\<open>-dirty\<close> (\<^verbatim>\<open>FindStringSubmatch\<close> returns \<^verbatim>\<open>nil\<close>), so a second pass
  of \<^verbatim>\<open>semverify\<close> over either changes nothing.
\<close>

theorem semverify_second_pass:
  "FindStringSubmatch semverPattern (semverify x) = []
   \<and> FindStringSubmatch semverPattern (semverify x @ ''-dirty'') = []
   \<and> semverify (semverify x) = semverify x
   \<and> semverify (semverify x @ ''-dirty'') = semverify x @ ''-dirty''"
  by (simp add: nomatch_semverify nomatch_dirty semverify_idem semverify_dirty)

text \<open>
  Claim C5, as stated, fails for a clean tree whose description itself ends in
  \<^verbatim>\<open>-dirty\<close>, as that of a tag of such a name does.
\<close>

theorem dirty_suffix_counterexample:
  "finalVersion ''v1.0-dirty'' clean = ''v1.0-dirty''
   \<and> suffix ''-dirty'' (finalVersion ''v1.0-dirty'' clean)"
proof -
  have "semverify (''v1.0'' @ ''-dirty'') = ''v1.0'' @ ''-dirty''"
    by (rule semverify_dirty)
  then have "finalVersion ''v1.0-dirty'' clean = ''v1.0-dirty''"
    by (simp add: finalVersion_def clean_def dirty_def)
  then show ?thesis by (simp add: suffix_def)
qed

text \<open>
  Claim C5, amended. For a non-empty description: with a dirty tree the final version is
  the normalized string followed by \<^verbatim>\<open>-dirty\<close>; with a clean tree it is the normalized
  string itself, which ends in \<^verbatim>\<open>-dirty\<close> exactly when the description does.
\<close>

theorem finalVersion_dirty_suffix:
  "version' \<noteq> [] \<Longrightarrow>
     finalVersion version' dirty = semverify version' @ ''-dirty''
     \<and> suffix ''-dirty'' (finalVersion version' dirty)
     \<and> finalVersion version' clean = semverify version'
     \<and> (suffix ''-dirty'' (finalVersion version' clean) \<longleftrightarrow> suffix ''-dirty'' version')"
proof -
  assume "version' \<noteq> []"
  moreover have "suffix ''-dirty'' (semverify version' @ ''-dirty'')"
    by (simp add: suffix_def)
  moreover have "clean \<noteq> dirty"
    by (simp add: clean_def dirty_def)
  ultimately show ?thesis
    by (simp add: finalVersion_def semverify_suffix_dirty)
qed

text \<open>
  Claim C5, the amended statement at the description of a commit three commits after the
  tag \<^verbatim>\<open>v1.2.0\<close>.
\<close>

theorem finalVersion_dirty_suffix_witness:
  "finalVersion ''v1.2.0-3-g0123abc0000000'' dirty = ''v1.2.0.3+0123abc0000000-dirty''
   \<and> suffix ''-dirty'' (finalVersion ''v1.2.0-3-g0123abc0000000'' dirty)
   \<and> finalVersion ''v1.2.0-3-g0123abc0000000'' clean = ''v1.2.0.3+0123abc0000000''
   \<and> \<not> suffix ''-dirty'' (finalVersion ''v1.2.0-3-g0123abc0000000'' clean)"
proof -
  have h: "''v1.2.0-3-g0123abc0000000'' \<noteq> []" by simp
  have sv: "semverify ''v1.2.0-3-g0123abc0000000'' = ''v1.2.0.3+0123abc0000000''"
    by code_simp
  have raw: "\<not> suffix ''-dirty'' ''v1.2.0-3-g0123abc0000000''"
    by code_simp
  from finalVersion_dirty_suffix [OF h] have
    a: "finalVersion ''v1.2.0-3-g0123abc0000000'' dirty
          = semverify ''v1.2.0-3-g0123abc0000000'' @ ''-dirty''"
    and b: "suffix ''-dirty'' (finalVersion ''v1.2.0-3-g0123abc0000000'' dirty)"
    and c: "finalVersion ''v1.2.0-3-g0123abc0000000'' clean
          = semverify ''v1.2.0-3-g0123abc0000000''"
    and d: "suffix ''-dirty'' (finalVersion ''v1.2.0-3-g0123abc0000000'' clean)
          \<longleftrightarrow> suffix ''-dirty'' ''v1.2.0-3-g0123abc0000000''"
    by blast+
  from a sv have a': "finalVersion ''v1.2.0-3-g0123abc0000000'' dirty
      = ''v1.2.0.3+0123abc0000000-dirty''"
    by simp
  from c sv have c': "finalVersion ''v1.2.0-3-g0123abc0000000'' clean
      = ''v1.2.0.3+0123abc0000000''"
    by simp
  from d raw have d': "\<not> suffix ''-dirty'' (finalVersion ''v1.2.0-3-g0123abc0000000'' clean)"
    by blast
  from a' b c' d' show ?thesis by blast
qed

section \<open>Claims about \<^verbatim>\<open>parseToolVersion\<close>\<close>

text \<open>
  Claim C2, as stated, fails for a major version that is not one digit from 1 to 9: the
  pattern has \<^verbatim>\<open>[1-9]\<close> and then the dot, so \<^verbatim>\<open>go10.2\<close> is not matched and gives the
  sentinel, not 102.
\<close>

theorem parseToolVersion_major_counterexample:
  "parseToolVersion ''go10.2'' = Inr toolVersionUnknown
   \<and> parseToolVersion ''go10.2'' \<noteq> Inr (10 * 10 + 2)"
  by (simp add: parseToolVersion_None toolVersionUnknown_def)

text \<open>
  Claim C2, amended. When the leftmost token of the shape \<^verbatim>\<open>go<d>.<minor>\<close> of the string
  has the major digit \<open>d\<close> from 1 to 9 and the digits \<open>m\<close> after the dot, as many as there
  are, and \<open>d * 10 + m\<close> fits \<^verbatim>\<open>int\<close>, \<^verbatim>\<open>parseToolVersion\<close> returns \<open>d * 10 + m\<close>,
  whatever follows the digits; a string with no such token gives the sentinel. Larger
  numbers are left out of the statement. The first part of the theorem is the case of a
  string written out: no \<^verbatim>\<open>g\<close> before the token, so that it is the leftmost, and no digit
  right after the minor version.
\<close>

theorem parseToolVersion_token:
  "(CHR ''g'' \<notin> set pre \<and> major \<in> set ''123456789'' \<and> minor \<noteq> [] \<and> list_all isDigit minor
      \<and> (rest = [] \<or> \<not> isDigit (hd rest))
      \<and> digitVal major * 10 + decimal minor \<le> maxInt \<longrightarrow>
      parseToolVersion (pre @ ''go'' @ [major] @ ''.'' @ minor @ rest)
        = Inr (digitVal major * 10 + decimal minor))
   \<and> (firstToken s = Some (d, m) \<and> digitVal d * 10 + decimal m \<le> maxInt \<longrightarrow>
      parseToolVersion s = Inr (digitVal d * 10 + decimal m))
   \<and> (firstToken s = None \<longrightarrow> parseToolVersion s = Inr toolVersionUnknown)"
proof -
  have tok: "parseToolVersion s = Inr (digitVal d * 10 + decimal m)"
    if tok: "firstToken s = Some (d, m)" and fit: "digitVal d * 10 + decimal m \<le> maxInt"
    for s d m
  proof -
    from firstToken_Some [OF tok] have d: "d \<in> set ''123456789''" and m: "list_all isDigit m"
      by simp_all
    have "0 \<le> decimal m" by (rule decimal_nonneg [OF m])
    with digitVal_major [OF d] fit have "decimal m \<le> maxInt" "0 \<le> digitVal d * 10 + decimal m"
      by simp_all
    then show ?thesis
      using fit by (simp add: parseToolVersion_Some [OF tok] wrapInt_id)
  qed
  show ?thesis
  proof (intro conjI impI)
    assume a: "CHR ''g'' \<notin> set pre \<and> major \<in> set ''123456789'' \<and> minor \<noteq> []
      \<and> list_all isDigit minor \<and> (rest = [] \<or> \<not> isDigit (hd rest))
      \<and> digitVal major * 10 + decimal minor \<le> maxInt"
    then have "firstToken (pre @ ''go'' @ [major] @ ''.'' @ minor @ rest) = Some (major, minor)"
      by (intro firstToken_shape) simp_all
    with a show "parseToolVersion (pre @ ''go'' @ [major] @ ''.'' @ minor @ rest)
        = Inr (digitVal major * 10 + decimal minor)"
      by (intro tok) simp_all
  next
    assume "firstToken s = Some (d, m) \<and> digitVal d * 10 + decimal m \<le> maxInt"
    then show "parseToolVersion s = Inr (digitVal d * 10 + decimal m)"
      by (intro tok) simp_all
  next
    assume "firstToken s = None"
    then show "parseToolVersion s = Inr toolVersionUnknown"
      by (rule parseToolVersion_None)
  qed
qed

text \<open>
  Claim C2, the amended statement at \<^verbatim>\<open>go1.21.3\<close>, at a string with two tokens and at
  \<^verbatim>\<open>devel\<close>.
\<close>

theorem parseToolVersion_token_witness:
  "parseToolVersion ''go1.21.3'' = Inr 31
   \<and> parseToolVersion ''xgo1.4 go1.21'' = Inr 14
   \<and> parseToolVersion ''devel'' = Inr toolVersionUnknown"
proof -
  have "parseToolVersion ([] @ ''go'' @ ''1'' @ ''.'' @ ''21'' @ ''.3'')
          = Inr (digitVal CHR ''1'' * 10 + decimal ''21'')"
    using parseToolVersion_token [of "[]" "CHR ''1''" "''21''" "''.3''"]
    by (simp add: isDigit_def digitVal_def decimal_def maxInt_def)
  then have 1: "parseToolVersion ''go1.21.3'' = Inr 31"
    by (simp add: digitVal_def decimal_def)
  have "firstToken ''xgo1.4 go1.21'' = Some (CHR ''1'', ''4'')"
    by (simp add: isDigit_def)
  with parseToolVersion_token [of _ _ _ _ "''xgo1.4 go1.21''" "CHR ''1''" "''4''"]
  have 2: "parseToolVersion ''xgo1.4 go1.21'' = Inr 14"
    by (simp add: digitVal_def decimal_def maxInt_def)
  have "firstToken ''devel'' = None"
    by simp
  with parseToolVersion_token [of _ _ _ _ "''devel''"]
  have 3: "parseToolVersion ''devel'' = Inr toolVersionUnknown"
    by blast
  from 1 2 3 show ?thesis by simp
qed

text \<open>
  Claim C9, as stated, fails at \<^verbatim>\<open>go1.0\<close>: the encoded version is 10, which is neither
  the sentinel nor at least 11.
\<close>

theorem parseToolVersion_ten_counterexample:
  "parseToolVersion ''go1.0'' = Inr 10
   \<and> (10 :: int) \<noteq> toolVersionUnknown \<and> \<not> (11 \<le> (10 :: int))"
proof -
  have "firstToken ''go1.0'' = Some (CHR ''1'', ''0'')"
    by (simp add: isDigit_def)
  then have "parseToolVersion ''go1.0'' = Inr 10"
    by (simp add: parseToolVersion_Some decimal_def digitVal_def maxInt_def wrapInt_def)
  then show ?thesis by (simp add: toolVersionUnknown_def)
qed

text \<open>
  Claim C9, amended. A value that \<^verbatim>\<open>parseToolVersion\<close> returns, for a string whose
  token (when it has one) encodes within \<^verbatim>\<open>int\<close>, is not negative, and is the sentinel 0
  or at least 10; it is the sentinel exactly when the string has no token.
\<close>

theorem parseToolVersion_range:
  "parseToolVersion s = Inr v \<Longrightarrow>
   (\<forall>d m. firstToken s = Some (d, m) \<longrightarrow> digitVal d * 10 + decimal m \<le> maxInt) \<Longrightarrow>
     0 \<le> v \<and> (v = toolVersionUnknown \<or> 10 \<le> v)
     \<and> (v = toolVersionUnknown \<longleftrightarrow> firstToken s = None)"
proof (cases "firstToken s")
  case None
  assume "parseToolVersion s = Inr v"
  with None show ?thesis
    by (simp add: parseToolVersion_None toolVersionUnknown_def)
next
  case (Some tok)
  assume v: "parseToolVersion s = Inr v"
    and fits: "\<forall>d m. firstToken s = Some (d, m) \<longrightarrow> digitVal d * 10 + decimal m \<le> maxInt"
  obtain d m where tok: "firstToken s = Some (d, m)"
    using Some by (cases tok) simp
  from firstToken_Some [OF tok] have d: "d \<in> set ''123456789''" and m: "list_all isDigit m"
    by simp_all
  from fits tok have fit: "digitVal d * 10 + decimal m \<le> maxInt" by blast
  have m0: "0 \<le> decimal m" by (rule decimal_nonneg [OF m])
  with digitVal_major [OF d] fit have "decimal m \<le> maxInt" "0 \<le> digitVal d * 10 + decimal m"
    by simp_all
  with v fit have "v = digitVal d * 10 + decimal m"
    by (simp add: parseToolVersion_Some [OF tok] wrapInt_id)
  with digitVal_major [OF d] m0 tok show ?thesis
    by (simp add: toolVersionUnknown_def)
qed

text \<open>Claim C9, the amended statement at \<^verbatim>\<open>go1.4.3\<close>.\<close>

theorem parseToolVersion_range_witness:
  "parseToolVersion ''go1.4.3'' = Inr 14
   \<and> 0 \<le> (14 :: int) \<and> 10 \<le> (14 :: int) \<and> (14 :: int) \<noteq> toolVersionUnknown
   \<and> firstToken ''go1.4.3'' \<noteq> None"
proof -
  have tok: "firstToken ''go1.4.3'' = Some (CHR ''1'', ''4'')"
    by (simp add: isDigit_def)
  then have v: "parseToolVersion ''go1.4.3'' = Inr 14"
    by (simp add: parseToolVersion_Some decimal_def digitVal_def maxInt_def wrapInt_def)
  have fits: "\<forall>d m. firstToken ''go1.4.3'' = Some (d, m) \<longrightarrow> digitVal d * 10 + decimal m \<le> maxInt"
    unfolding tok by (simp add: decimal_def digitVal_def maxInt_def)
  from parseToolVersion_range [OF v fits] v tok show ?thesis
    by (simp add: toolVersionUnknown_def)
qed

text \<open>
  Claim C10 says that \<^verbatim>\<open>mustAtoi\<close> cannot panic in \<^verbatim>\<open>parseToolVersion\<close>, as the comment
  in the code does. The pattern bounds the number of digits of the minor version by
  nothing, and \<^verbatim>\<open>strconv.Atoi\<close> fails on a number above \<open>2\<^sup>6\<^sup>3 - 1\<close>: the call panics.
\<close>

theorem parseToolVersion_panics:
  "parseToolVersion ''go1.9223372036854775808'' = Inl ErrRange"
proof -
  have "firstToken ''go1.9223372036854775808'' = Some (CHR ''1'', ''9223372036854775808'')"
    by (simp add: isDigit_def)
  then show ?thesis
    by (simp add: parseToolVersion_Some decimal_def digitVal_def maxInt_def)
qed

section \<open>Claims about \<^verbatim>\<open>main\<close>\<close>

text \<open>
  Claim C3: a link setting is written \<^verbatim>\<open>-X <pkg>.<key> <value>\<close> when the encoded tool
  version is at most 14, and \<^verbatim>\<open>-X <pkg>.<key>=<value>\<close> when it is above 14.
\<close>

theorem linkFlag_syntax:
  "(goVersion \<le> 14 \<longrightarrow>
      linkFlag goVersion key val = ''-X github.com/gravitational/version.'' @ key @ '' '' @ val)
   \<and> (14 < goVersion \<longrightarrow>
      linkFlag goVersion key val = ''-X github.com/gravitational/version.'' @ key @ ''='' @ val)"
  by (simp add: linkFlag_def versionPackage_def)

text \<open>Claim C3 at the boundary: the versions 14 and 15.\<close>

theorem linkFlag_syntax_witness:
  "linkFlag 14 ''version'' ''v1.2.0'' = ''-X github.com/gravitational/version.version v1.2.0''
   \<and> linkFlag 15 ''version'' ''v1.2.0'' = ''-X github.com/gravitational/version.version=v1.2.0''"
  using linkFlag_syntax [of 14 "''version''" "''v1.2.0''"]
    linkFlag_syntax [of 15 "''version''" "''v1.2.0''"]
  by simp

text \<open>
  Claim C4, as stated, fails when the go tool runs but its version is not parsed:
  \<^verbatim>\<open>goToolVersion\<close> returns the sentinel with no error, \<^verbatim>\<open>main\<close> tests the error only,
  and the run goes on and prints the settings, in the syntax of the old tools.
\<close>

theorem unparsed_tool_version_counterexample:
  "goToolVersion develOS = Inr (toolVersionUnknown, None)
   \<and> main develOS ''/src/pkg'' =
       Printed ''-X github.com/gravitational/version.gitCommit 0123abc -X github.com/gravitational/version.gitTreeState clean -X github.com/gravitational/version.version v1.2.0''"
  by code_simp

text \<open>
  Claim C4, amended. When the command \<^verbatim>\<open>go version\<close> fails, \<^verbatim>\<open>goToolVersion\<close> returns
  the sentinel with an error and the run is fatal, with nothing printed. When the command
  succeeds and its output has fewer than three fields separated by a space, or a third
  field without a version token, \<^verbatim>\<open>goToolVersion\<close> returns the sentinel and no error; the
  run is not fatal: with the git queries answered it prints the settings for the tool
  version 0, each in the space-separated syntax.
\<close>

theorem tool_version_failure:
  "(pkg \<noteq> [] \<and> os ''go'' [''version''] = (out, Some e) \<longrightarrow>
      goToolVersion os = Inr (toolVersionUnknown, Some \<lparr>tool = ''go'', output' = out, err = e\<rparr>)
    \<and> main os pkg =
        Fatal (''failed to determine go tool version: ''
               @ Error \<lparr>tool = ''go'', output' = out, err = e\<rparr>))
   \<and> (pkg \<noteq> [] \<and> os ''go'' [''version''] = (out, None)
      \<and> (length (Split out CHR '' '') \<le> 2 \<or> firstToken (Split out CHR '' '' ! 2) = None)
      \<and> commitID os (newGit pkg) = (cid, None) \<and> treeState os (newGit pkg) = (ts, None)
      \<and> version os (newGit pkg) cid = (raw, verr) \<longrightarrow>
      goToolVersion os = Inr (toolVersionUnknown, None)
    \<and> main os pkg =
        Printed (Join (linkFlags toolVersionUnknown cid ts
                         (finalVersion (if verr \<noteq> None then [] else raw) ts)) '' '')
    \<and> linkFlag toolVersionUnknown key val
        = ''-X github.com/gravitational/version.'' @ key @ '' '' @ val)"
proof (intro conjI impI)
  assume a: "pkg \<noteq> [] \<and> os ''go'' [''version''] = (out, Some e)"
  then show "goToolVersion os = Inr (toolVersionUnknown, Some \<lparr>tool = ''go'', output' = out, err = e\<rparr>)"
    by (simp add: goToolVersion_failed)
  with a show "main os pkg =
        Fatal (''failed to determine go tool version: ''
               @ Error \<lparr>tool = ''go'', output' = out, err = e\<rparr>)"
    by (simp add: main_def)
next
  assume a: "pkg \<noteq> [] \<and> os ''go'' [''version''] = (out, None)
      \<and> (length (Split out CHR '' '') \<le> 2 \<or> firstToken (Split out CHR '' '' ! 2) = None)
      \<and> commitID os (newGit pkg) = (cid, None) \<and> treeState os (newGit pkg) = (ts, None)
      \<and> version os (newGit pkg) cid = (raw, verr)"
  then show gv: "goToolVersion os = Inr (toolVersionUnknown, None)"
    by (intro goToolVersion_unparsed [of os out]) simp_all
  from a show "main os pkg =
        Printed (Join (linkFlags toolVersionUnknown cid ts
                         (finalVersion (if verr \<noteq> None then [] else raw) ts)) '' '')"
    by (intro main_Printed gv) simp_all
  show "linkFlag toolVersionUnknown key val
        = ''-X github.com/gravitational/version.'' @ key @ '' '' @ val"
    by (simp add: linkFlag_def versionPackage_def toolVersionUnknown_def)
qed

text \<open>
  Claim C4, the amended statement on a machine without the go tool and on one with a
  development build.
\<close>

theorem tool_version_failure_witness:
  "goToolVersion goMissingOS
     = Inr (toolVersionUnknown,
            Some \<lparr>tool = ''go'', output' = [], err = ''executable file not found''\<rparr>)
   \<and> main goMissingOS ''/src/pkg''
     = Fatal ''failed to determine go tool version: error executing `go`: executable file not found ()''
   \<and> goToolVersion develOS = Inr (toolVersionUnknown, None)
   \<and> main develOS ''/src/pkg''
     = Printed (Join [''-X github.com/gravitational/version.gitCommit 0123abc'',
                      ''-X github.com/gravitational/version.gitTreeState clean'',
                      ''-X github.com/gravitational/version.version v1.2.0''] '' '')"
proof -
  have pkg: "''/src/pkg'' \<noteq> []" by simp
  have 1: "goMissingOS ''go'' [''version''] = ([], Some ''executable file not found'')"
    by (simp add: goMissingOS_def)
  let ?out = "''go version devel +0123abc linux/amd64'' @ [newline]"
  have 2: "develOS ''go'' [''version''] = (?out, None)"
    by (simp add: develOS_def)
  have 3: "length (Split ?out CHR '' '') \<le> 2 \<or> firstToken (Split ?out CHR '' '' ! 2) = None"
    by code_simp
  have 4: "commitID develOS (newGit ''/src/pkg'') = (''0123abc'', None)"
    by code_simp
  have 5: "treeState develOS (newGit ''/src/pkg'') = (clean, None)"
    by code_simp
  have 6: "version develOS (newGit ''/src/pkg'') ''0123abc'' = (''v1.2.0'', None)"
    by code_simp
  have 7: "Join (linkFlags toolVersionUnknown ''0123abc'' clean (finalVersion ''v1.2.0'' clean)) '' ''
           = Join [''-X github.com/gravitational/version.gitCommit 0123abc'',
                   ''-X github.com/gravitational/version.gitTreeState clean'',
                   ''-X github.com/gravitational/version.version v1.2.0''] '' ''"
    by code_simp
  from tool_version_failure [of "''/src/pkg''" goMissingOS "[]" "''executable file not found''"] pkg 1
  have a: "goToolVersion goMissingOS
     = Inr (toolVersionUnknown,
            Some \<lparr>tool = ''go'', output' = [], err = ''executable file not found''\<rparr>)"
    and b: "main goMissingOS ''/src/pkg''
     = Fatal (''failed to determine go tool version: ''
              @ Error \<lparr>tool = ''go'', output' = [], err = ''executable file not found''\<rparr>)"
    by blast+
  have hyp: "''/src/pkg'' \<noteq> [] \<and> develOS ''go'' [''version''] = (?out, None)
      \<and> (length (Split ?out CHR '' '') \<le> 2 \<or> firstToken (Split ?out CHR '' '' ! 2) = None)
      \<and> commitID develOS (newGit ''/src/pkg'') = (''0123abc'', None)
      \<and> treeState develOS (newGit ''/src/pkg'') = (clean, None)
      \<and> version develOS (newGit ''/src/pkg'') ''0123abc'' = (''v1.2.0'', None)"
    using pkg 2 3 4 5 6 by (intro conjI)
  note tvf = tool_version_failure [where pkg = "''/src/pkg''" and os = develOS and out = ?out
      and cid = "''0123abc''" and ts = clean and raw = "''v1.2.0''" and verr = None]
  from tvf [THEN conjunct2, THEN mp, OF hyp]
  have c: "goToolVersion develOS = Inr (toolVersionUnknown, None)"
    and d: "main develOS ''/src/pkg''
      = Printed (Join (linkFlags toolVersionUnknown ''0123abc'' clean
                         (finalVersion (if (None :: toolError option) \<noteq> None then []
                                        else ''v1.2.0'') clean)) '' '')"
    by blast+
  from a b c d 7 show ?thesis
    by (simp add: Error_def)
qed

text \<open>
  Claim C6: a run that prints has the go tool version, the commit and the tree state
  without an error; what it prints is the setting \<^verbatim>\<open>gitCommit\<close> followed by the setting
  \<^verbatim>\<open>gitTreeState\<close>, both exactly when the commit is not empty, then the setting
  \<^verbatim>\<open>version\<close> exactly when the final version is not empty, and nothing else, with one
  space between two settings.
\<close>

theorem main_settings:
  "main os pkg = Printed out \<Longrightarrow>
     \<exists>gv cid ts raw verr v.
        goToolVersion os = Inr (gv, None)
      \<and> commitID os (newGit pkg) = (cid, None)
      \<and> treeState os (newGit pkg) = (ts, None)
      \<and> version os (newGit pkg) cid = (raw, verr)
      \<and> v = finalVersion (if verr \<noteq> None then [] else raw) ts
      \<and> out = Join ((if cid \<noteq> []
                      then [linkFlag gv ''gitCommit'' cid, linkFlag gv ''gitTreeState'' ts]
                      else [])
                     @ (if v \<noteq> [] then [linkFlag gv ''version'' v] else [])) '' ''
      \<and> out = (if cid \<noteq> [] \<and> v \<noteq> []
               then linkFlag gv ''gitCommit'' cid @ '' '' @ linkFlag gv ''gitTreeState'' ts
                      @ '' '' @ linkFlag gv ''version'' v
               else if cid \<noteq> []
               then linkFlag gv ''gitCommit'' cid @ '' '' @ linkFlag gv ''gitTreeState'' ts
               else if v \<noteq> [] then linkFlag gv ''version'' v
               else [])"
proof -
  assume "main os pkg = Printed out"
  from main_Printed_run [OF this] obtain gv cid ts raw verr where
    run: "goToolVersion os = Inr (gv, None)" "commitID os (newGit pkg) = (cid, None)"
      "treeState os (newGit pkg) = (ts, None)" "version os (newGit pkg) cid = (raw, verr)"
    and out: "out = Join (linkFlags gv cid ts
                (finalVersion (if verr \<noteq> None then [] else raw) ts)) '' ''"
    by blast
  let ?v = "finalVersion (if verr \<noteq> None then [] else raw) ts"
  have 1: "out = Join ((if cid \<noteq> []
                      then [linkFlag gv ''gitCommit'' cid, linkFlag gv ''gitTreeState'' ts]
                      else [])
                     @ (if ?v \<noteq> [] then [linkFlag gv ''version'' ?v] else [])) '' ''"
    unfolding out linkFlags_eq ..
  then have 2: "out = (if cid \<noteq> [] \<and> ?v \<noteq> []
               then linkFlag gv ''gitCommit'' cid @ '' '' @ linkFlag gv ''gitTreeState'' ts
                      @ '' '' @ linkFlag gv ''version'' ?v
               else if cid \<noteq> []
               then linkFlag gv ''gitCommit'' cid @ '' '' @ linkFlag gv ''gitTreeState'' ts
               else if ?v \<noteq> [] then linkFlag gv ''version'' ?v
               else [])"
    by simp
  from run 1 2 show ?thesis by blast
qed

text \<open>Claim C6 on the run over the dirty tree: all three settings.\<close>

theorem main_settings_witness:
  "main exampleOS ''/src/pkg'' = Printed ''-X github.com/gravitational/version.gitCommit=0123abc -X github.com/gravitational/version.gitTreeState=dirty -X github.com/gravitational/version.version=v1.2.0.3+0123abc0000000-dirty''
   \<and> (\<exists>gv cid ts raw verr v.
        goToolVersion exampleOS = Inr (gv, None)
      \<and> commitID exampleOS (newGit ''/src/pkg'') = (cid, None)
      \<and> treeState exampleOS (newGit ''/src/pkg'') = (ts, None)
      \<and> version exampleOS (newGit ''/src/pkg'') cid = (raw, verr)
      \<and> v = finalVersion (if verr \<noteq> None then [] else raw) ts
      \<and> ''-X github.com/gravitational/version.gitCommit=0123abc -X github.com/gravitational/version.gitTreeState=dirty -X github.com/gravitational/version.version=v1.2.0.3+0123abc0000000-dirty''
          = Join ((if cid \<noteq> []
                      then [linkFlag gv ''gitCommit'' cid, linkFlag gv ''gitTreeState'' ts]
                      else [])
                     @ (if v \<noteq> [] then [linkFlag gv ''version'' v] else [])) '' '')"
proof -
  have m: "main exampleOS ''/src/pkg'' = Printed ''-X github.com/gravitational/version.gitCommit=0123abc -X github.com/gravitational/version.gitTreeState=dirty -X github.com/gravitational/version.version=v1.2.0.3+0123abc0000000-dirty''"
    by code_simp
  from main_settings [OF m] m show ?thesis by blast
qed

text \<open>
  Claim C7: when \<^verbatim>\<open>git describe\<close> fails in a run that has the tool version, the commit
  and the tree state, the run still prints: the version is empty, there is no
  \<^verbatim>\<open>version\<close> setting, and the settings \<^verbatim>\<open>gitCommit\<close> and \<^verbatim>\<open>gitTreeState\<close> are there as
  in any run (for the non-empty commit of a repository, both).
\<close>

theorem describe_failure_is_soft:
  "pkg \<noteq> [] \<Longrightarrow> goToolVersion os = Inr (gv, None) \<Longrightarrow>
   commitID os (newGit pkg) = (cid, None) \<Longrightarrow> treeState os (newGit pkg) = (ts, None) \<Longrightarrow>
   version os (newGit pkg) cid = (raw, Some e) \<Longrightarrow>
     main os pkg = Printed (Join (linkFlags gv cid ts []) '' '')
     \<and> linkFlags gv cid ts []
         = (if cid \<noteq> []
            then [linkFlag gv ''gitCommit'' cid, linkFlag gv ''gitTreeState'' ts] else [])
     \<and> (cid \<noteq> [] \<longrightarrow>
          main os pkg
            = Printed (linkFlag gv ''gitCommit'' cid @ '' '' @ linkFlag gv ''gitTreeState'' ts))"
proof -
  assume a: "pkg \<noteq> []" "goToolVersion os = Inr (gv, None)"
    "commitID os (newGit pkg) = (cid, None)" "treeState os (newGit pkg) = (ts, None)"
    "version os (newGit pkg) cid = (raw, Some e)"
  have "main os pkg = Printed (Join (linkFlags gv cid ts
          (finalVersion (if Some e \<noteq> None then [] else raw) ts)) '' '')"
    by (rule main_Printed [OF a])
  then have "main os pkg = Printed (Join (linkFlags gv cid ts []) '' '')"
    by (simp add: finalVersion_def)
  then show ?thesis
    by (simp add: linkFlags_eq)
qed

text \<open>Claim C7 on the repository without tags.\<close>

theorem describe_failure_is_soft_witness:
  "version noTagsOS (newGit ''/src/pkg'') ''0123abc''
     = (''fatal: No names found, cannot describe anything.'' @ [newline],
        Some \<lparr>tool = ''git'',
              output' = ''fatal: No names found, cannot describe anything.'' @ [newline],
              err = ''exit status 128''\<rparr>)
   \<and> main noTagsOS ''/src/pkg''
       = Printed (linkFlag 14 ''gitCommit'' ''0123abc'' @ '' '' @ linkFlag 14 ''gitTreeState'' clean)
   \<and> main noTagsOS ''/src/pkg''
       = Printed ''-X github.com/gravitational/version.gitCommit 0123abc -X github.com/gravitational/version.gitTreeState clean''"
proof -
  have pkg: "''/src/pkg'' \<noteq> []" by simp
  have 1: "goToolVersion noTagsOS = Inr (14, None)"
    by code_simp
  have 2: "commitID noTagsOS (newGit ''/src/pkg'') = (''0123abc'', None)"
    by code_simp
  have 3: "treeState noTagsOS (newGit ''/src/pkg'') = (clean, None)"
    by code_simp
  have 4: "version noTagsOS (newGit ''/src/pkg'') ''0123abc''
     = (''fatal: No names found, cannot describe anything.'' @ [newline],
        Some \<lparr>tool = ''git'',
              output' = ''fatal: No names found, cannot describe anything.'' @ [newline],
              err = ''exit status 128''\<rparr>)"
    by code_simp
  have 5: "linkFlag 14 ''gitCommit'' ''0123abc'' @ '' '' @ linkFlag 14 ''gitTreeState'' clean
      = ''-X github.com/gravitational/version.gitCommit 0123abc -X github.com/gravitational/version.gitTreeState clean''"
    by code_simp
  from describe_failure_is_soft [OF pkg 1 2 3 4]
  have "main noTagsOS ''/src/pkg''
       = Printed (linkFlag 14 ''gitCommit'' ''0123abc'' @ '' '' @ linkFlag 14 ''gitTreeState'' clean)"
    by simp
  with 4 5 show ?thesis by simp
qed

end
